theory Spec2Isabelle
  imports Main "HOL-Library.Word" "HOL-Library.Monad_Syntax"
begin

unbundle bit_operations_syntax

section \<open>Typed memory and machine integers\<close>

text \<open>
  The functions of \<^verbatim>\<open>math_functions.cpp\<close> work on caller-owned buffers that they
  receive as raw pointers. A buffer of element type \<open>'d\<close> lives in a typed memory: a partial
  map from element addresses to elements. A pointer is an element address; pointer
  arithmetic \<open>p + i\<close> is integer addition; reading or writing a cell that is not allocated
  is undefined behaviour, which the model reports as \<open>None\<close>.
\<close>

type_synonym 'd mem = "int \<Rightarrow> 'd option"

text \<open>
  The contents of the \<open>n\<close> cells starting at \<open>p\<close>, and a memory with the cells starting
  at \<open>p\<close> overwritten by a list. Both are only used to state results.
\<close>

definition cells :: "'d mem \<Rightarrow> int \<Rightarrow> nat \<Rightarrow> 'd list" where
  "cells m p n = map (\<lambda>i. the (m (p + int i))) [0..<n]"

definition allocated :: "'d mem \<Rightarrow> int \<Rightarrow> nat \<Rightarrow> bool" where
  "allocated m p n = (\<forall>i<n. m (p + int i) \<noteq> None)"

definition overwrite :: "'d mem \<Rightarrow> int \<Rightarrow> 'd list \<Rightarrow> 'd mem" where
  "overwrite m p xs =
     (\<lambda>q. if p \<le> q \<and> q < p + int (length xs) then Some (xs ! nat (q - p)) else m q)"

text \<open>
  \<^verbatim>\<open>int\<close> is a 32-bit two's complement integer; signed overflow is undefined behaviour.
\<close>

definition INT_MIN :: int where "INT_MIN = - 2147483648"
definition INT_MAX :: int where "INT_MAX = 2147483647"

definition int_mul :: "int \<Rightarrow> int \<Rightarrow> int option" where
  "int_mul a b = (if INT_MIN \<le> a * b \<and> a * b \<le> INT_MAX then Some (a * b) else None)"

definition int_add :: "int \<Rightarrow> int \<Rightarrow> int option" where
  "int_add a b = (if INT_MIN \<le> a + b \<and> a + b \<le> INT_MAX then Some (a + b) else None)"

section \<open>Precision conversion of buffers\<close>

text \<open>
  Modelled from the spec: \<^verbatim>\<open>caffe_cpu_convert(count, source, dest)\<close> is declared in
  \<^verbatim>\<open>math_functions.hpp\<close> and missing from the sources at hand. The spec (4.1) says it
  "copies \<open>count\<close> logical elements from a typed source buffer to a typed destination
  buffer, converting each element's numeric value". The scalar conversion \<^verbatim>\<open>Get<T>\<close> is a
  parameter \<open>get\<close>. In this file one side of every call is a \<^verbatim>\<open>std::vector\<close> (a list):
  \<open>caffe_cpu_convert_from\<close> reads \<open>count\<close> cells of memory into a vector,
  \<open>caffe_cpu_convert_to\<close> writes a vector into memory.
\<close>

fun caffe_cpu_convert_from :: "('a \<Rightarrow> 'b) \<Rightarrow> nat \<Rightarrow> 'a mem \<Rightarrow> int \<Rightarrow> 'b list option" where
  "caffe_cpu_convert_from get 0 m p = Some []"
| "caffe_cpu_convert_from get (Suc n) m p =
     (case m p of
        None \<Rightarrow> None
      | Some v \<Rightarrow>
          (case caffe_cpu_convert_from get n m (p + 1) of
             None \<Rightarrow> None
           | Some vs \<Rightarrow> Some (get v # vs)))"

fun caffe_cpu_convert_to :: "('b \<Rightarrow> 'a) \<Rightarrow> 'b list \<Rightarrow> 'a mem \<Rightarrow> int \<Rightarrow> 'a mem option" where
  "caffe_cpu_convert_to get [] m p = Some m"
| "caffe_cpu_convert_to get (v # vs) m p =
     (case m p of
        None \<Rightarrow> None
      | Some old \<Rightarrow> caffe_cpu_convert_to get vs (m(p := Some (get v))) (p + 1))"

section \<open>Dense linear algebra: the reduced-precision gemm and gemv\<close>

datatype CBLAS_TRANSPOSE = CblasNoTrans | CblasTrans | CblasConjTrans

text \<open>
  What a call leaves behind besides the memory: the temporaries it allocated and the calls
  it made to the vendor backend, in order, with the operands the backend received.
\<close>

datatype 'f event =
    VectorAlloc nat
  | Sgemm CBLAS_TRANSPOSE CBLAS_TRANSPOSE int int int 'f "'f list" int "'f list" int 'f "'f list" int
  | Sgemv CBLAS_TRANSPOSE int int 'f "'f list" int "'f list" int 'f "'f list" int

record ('h, 'f) machine =
  hmem :: "'h mem"
  trace :: "'f event list"

text \<open>
  The backend routines \<^verbatim>\<open>cblas_sgemm\<close> and \<^verbatim>\<open>cblas_sgemv\<close> are external: they are
  parameters. They update their last operand in place without resizing it, so the parameter
  gives, for each index \<open>i\<close>, the value the call leaves at position \<open>i\<close> of that operand.
\<close>

type_synonym 'f sgemm =
  "CBLAS_TRANSPOSE \<Rightarrow> CBLAS_TRANSPOSE \<Rightarrow> int \<Rightarrow> int \<Rightarrow> int \<Rightarrow> 'f \<Rightarrow> 'f list \<Rightarrow> int \<Rightarrow>
   'f list \<Rightarrow> int \<Rightarrow> 'f \<Rightarrow> 'f list \<Rightarrow> int \<Rightarrow> nat \<Rightarrow> 'f"

type_synonym 'f sgemv =
  "CBLAS_TRANSPOSE \<Rightarrow> int \<Rightarrow> int \<Rightarrow> 'f \<Rightarrow> 'f list \<Rightarrow> int \<Rightarrow> 'f list \<Rightarrow> int \<Rightarrow> 'f \<Rightarrow>
   'f list \<Rightarrow> int \<Rightarrow> nat \<Rightarrow> 'f"

definition caffe_cpu_gemm_half ::
  "'f sgemm \<Rightarrow> ('h \<Rightarrow> 'f) \<Rightarrow> ('f \<Rightarrow> 'h) \<Rightarrow> CBLAS_TRANSPOSE \<Rightarrow> CBLAS_TRANSPOSE \<Rightarrow>
   int \<Rightarrow> int \<Rightarrow> int \<Rightarrow> 'f \<Rightarrow> int \<Rightarrow> int \<Rightarrow> 'f \<Rightarrow> int \<Rightarrow>
   ('h, 'f) machine \<Rightarrow> ('h, 'f) machine option" where
  "caffe_cpu_gemm_half cblas_sgemm get_float get_half TransA TransB M N K alpha A B beta C s =
     (if M \<le> 0 \<or> N \<le> 0 \<or> K \<le> 0 then Some s
      else do {
        na \<leftarrow> int_mul M K;
        nb \<leftarrow> int_mul K N;
        nc \<leftarrow> int_mul M N;
        a \<leftarrow> caffe_cpu_convert_from get_float (nat na) (hmem s) A;
        b \<leftarrow> caffe_cpu_convert_from get_float (nat nb) (hmem s) B;
        c \<leftarrow> caffe_cpu_convert_from get_float (nat nc) (hmem s) C;
        let lda = (if TransA = CblasNoTrans then K else M);
        let ldb = (if TransB = CblasNoTrans then N else K);
        let c' = map (cblas_sgemm TransA TransB M N K alpha a lda b ldb beta c N) [0..<length c];
        m' \<leftarrow> caffe_cpu_convert_to get_half c' (hmem s) C;
        Some \<lparr>hmem = m',
              trace = trace s @
                [VectorAlloc (nat na), VectorAlloc (nat nb), VectorAlloc (nat nc),
                 Sgemm TransA TransB M N K alpha a lda b ldb beta c N]\<rparr>
      })"

definition caffe_cpu_gemv_half ::
  "'f sgemv \<Rightarrow> ('h \<Rightarrow> 'f) \<Rightarrow> ('f \<Rightarrow> 'h) \<Rightarrow> CBLAS_TRANSPOSE \<Rightarrow>
   int \<Rightarrow> int \<Rightarrow> 'f \<Rightarrow> int \<Rightarrow> int \<Rightarrow> 'f \<Rightarrow> int \<Rightarrow>
   ('h, 'f) machine \<Rightarrow> ('h, 'f) machine option" where
  "caffe_cpu_gemv_half cblas_sgemv get_float get_half TransA M N alpha A x beta y s =
     (if M \<le> 0 \<or> N \<le> 0 then Some s
      else do {
        let lx = (if TransA = CblasNoTrans then N else M);
        let ly = (if TransA = CblasNoTrans then M else N);
        na \<leftarrow> int_mul M N;
        a \<leftarrow> caffe_cpu_convert_from get_float (nat na) (hmem s) A;
        xv \<leftarrow> caffe_cpu_convert_from get_float (nat lx) (hmem s) x;
        yv \<leftarrow> caffe_cpu_convert_from get_float (nat ly) (hmem s) y;
        let yv' = map (cblas_sgemv TransA M N alpha a N xv 1 beta yv 1) [0..<length yv];
        m' \<leftarrow> caffe_cpu_convert_to get_half yv' (hmem s) y;
        Some \<lparr>hmem = m',
              trace = trace s @
                [VectorAlloc (nat na), VectorAlloc (nat lx), VectorAlloc (nat ly),
                 Sgemv TransA M N alpha a N xv 1 beta yv 1]\<rparr>
      })"

section \<open>The native single-precision gemm and gemv\<close>

text \<open>
  The native single-precision paths \<^verbatim>\<open>caffe_cpu_gemm<float,float>\<close> and
  \<^verbatim>\<open>caffe_cpu_gemv<float,float>\<close> forward to the backend, which works on the caller's
  buffers in place: it reads the operands (\<open>M*K\<close>, \<open>K*N\<close> and \<open>M*N\<close> elements for gemm; \<open>M*N\<close>
  elements and the two vectors for gemv) and leaves its results in the last one. The model
  is meant for dimensions that are not negative.
\<close>

definition caffe_cpu_gemm_float ::
  "'f sgemm \<Rightarrow> CBLAS_TRANSPOSE \<Rightarrow> CBLAS_TRANSPOSE \<Rightarrow> int \<Rightarrow> int \<Rightarrow> int \<Rightarrow> 'f \<Rightarrow> int \<Rightarrow> int \<Rightarrow>
   'f \<Rightarrow> int \<Rightarrow> 'f mem \<Rightarrow> 'f mem option" where
  "caffe_cpu_gemm_float cblas_sgemm TransA TransB M N K alpha A B beta C m =
     (let lda = (if TransA = CblasNoTrans then K else M);
          ldb = (if TransB = CblasNoTrans then N else K)
      in if allocated m A (nat (M * K)) \<and> allocated m B (nat (K * N)) \<and> allocated m C (nat (M * N))
         then Some (overwrite m C
                (map (cblas_sgemm TransA TransB M N K alpha (cells m A (nat (M * K))) lda
                        (cells m B (nat (K * N))) ldb beta (cells m C (nat (M * N))) N)
                   [0..<nat (M * N)]))
         else None)"

definition caffe_cpu_gemv_float ::
  "'f sgemv \<Rightarrow> CBLAS_TRANSPOSE \<Rightarrow> int \<Rightarrow> int \<Rightarrow> 'f \<Rightarrow> int \<Rightarrow> int \<Rightarrow> 'f \<Rightarrow> int \<Rightarrow>
   'f mem \<Rightarrow> 'f mem option" where
  "caffe_cpu_gemv_float cblas_sgemv TransA M N alpha A x beta y m =
     (let lx = (if TransA = CblasNoTrans then N else M);
          ly = (if TransA = CblasNoTrans then M else N)
      in if allocated m A (nat (M * N)) \<and> allocated m x (nat lx) \<and> allocated m y (nat ly)
         then Some (overwrite m y
                (map (cblas_sgemv TransA M N alpha (cells m A (nat (M * N))) N
                        (cells m x (nat lx)) 1 beta (cells m y (nat ly)) 1)
                   [0..<nat ly]))
         else None)"

text \<open>The same logical contents in single precision: every element converted.\<close>

definition as_float :: "('h \<Rightarrow> 'f) \<Rightarrow> 'h mem \<Rightarrow> 'f mem" where
  "as_float get_float m = (\<lambda>p. map_option get_float (m p))"

text \<open>
  Cross-path equivalence: on the same logical inputs both paths come back, and what the
  reduced-precision path leaves in the output buffer is, element by element, the storage
  conversion of what the native path leaves there.
\<close>

definition gemm_paths_agree ::
  "'f sgemm \<Rightarrow> ('h \<Rightarrow> 'f) \<Rightarrow> ('f \<Rightarrow> 'h) \<Rightarrow> CBLAS_TRANSPOSE \<Rightarrow> CBLAS_TRANSPOSE \<Rightarrow>
   int \<Rightarrow> int \<Rightarrow> int \<Rightarrow> 'f \<Rightarrow> int \<Rightarrow> int \<Rightarrow> 'f \<Rightarrow> int \<Rightarrow> ('h, 'f) machine \<Rightarrow> bool" where
  "gemm_paths_agree cblas_sgemm get_float get_half TransA TransB M N K alpha A B beta C s =
     (case caffe_cpu_gemm_half cblas_sgemm get_float get_half TransA TransB M N K alpha A B beta C s of
        None \<Rightarrow> False
      | Some s' \<Rightarrow>
          (case caffe_cpu_gemm_float cblas_sgemm TransA TransB M N K alpha A B beta C
                  (as_float get_float (hmem s)) of
             None \<Rightarrow> False
           | Some fm' \<Rightarrow>
               cells (hmem s') C (nat (M * N)) = map get_half (cells fm' C (nat (M * N)))))"

definition gemv_paths_agree ::
  "'f sgemv \<Rightarrow> ('h \<Rightarrow> 'f) \<Rightarrow> ('f \<Rightarrow> 'h) \<Rightarrow> CBLAS_TRANSPOSE \<Rightarrow>
   int \<Rightarrow> int \<Rightarrow> 'f \<Rightarrow> int \<Rightarrow> int \<Rightarrow> 'f \<Rightarrow> int \<Rightarrow> ('h, 'f) machine \<Rightarrow> bool" where
  "gemv_paths_agree cblas_sgemv get_float get_half TransA M N alpha A x beta y s =
     (case caffe_cpu_gemv_half cblas_sgemv get_float get_half TransA M N alpha A x beta y s of
        None \<Rightarrow> False
      | Some s' \<Rightarrow>
          (case caffe_cpu_gemv_float cblas_sgemv TransA M N alpha A x beta y
                  (as_float get_float (hmem s)) of
             None \<Rightarrow> False
           | Some fm' \<Rightarrow>
               cells (hmem s') y (nat (if TransA = CblasNoTrans then M else N)) =
                 map get_half (cells fm' y (nat (if TransA = CblasNoTrans then M else N)))))"

text \<open>
  A textbook row-major matrix product and matrix-vector product over the integers, with exact
  arithmetic. They stand for the backend wherever a concrete backend is needed to run the
  model on an example.
\<close>

definition sgemm_textbook :: "int sgemm" where
  "sgemm_textbook TransA TransB M N K alpha a lda b ldb beta c ldc i =
     (let r = i div nat ldc; col = i mod nat ldc;
          opA = (\<lambda>k. if TransA = CblasNoTrans then a ! (r * nat lda + k) else a ! (k * nat lda + r));
          opB = (\<lambda>k. if TransB = CblasNoTrans then b ! (k * nat ldb + col) else b ! (col * nat ldb + k))
      in alpha * sum_list (map (\<lambda>k. opA k * opB k) [0..<nat K]) + beta * c ! i)"

definition sgemv_textbook :: "int sgemv" where
  "sgemv_textbook TransA M N alpha a lda x incx beta y incy i =
     (if TransA = CblasNoTrans
      then alpha * sum_list (map (\<lambda>k. a ! (i * nat lda + k) * x ! (k * nat incx)) [0..<nat N]) +
           beta * y ! (i * nat incy)
      else alpha * sum_list (map (\<lambda>k. a ! (k * nat lda + i) * x ! (k * nat incx)) [0..<nat M]) +
           beta * y ! (i * nat incy))"

section \<open>Strided dot product, reduced precision\<close>

text \<open>
  \<^verbatim>\<open>caffe_cpu_strided_dot<half,float>\<close>. The compute-type addition, multiplication and the
  literal \<^verbatim>\<open>0.0f\<close> are parameters \<open>fadd\<close>, \<open>fmul\<close> and \<open>fzero\<close>; \<open>get_float\<close> is
  \<^verbatim>\<open>Get<float>\<close>. The loop counter runs from \<open>i\<close> while \<open>i < n\<close>; the indices \<open>i*incx\<close> and
  \<open>i*incy\<close> are \<^verbatim>\<open>int\<close> products.
\<close>

function caffe_cpu_strided_dot_half_loop ::
  "('f \<Rightarrow> 'f \<Rightarrow> 'f) \<Rightarrow> ('f \<Rightarrow> 'f \<Rightarrow> 'f) \<Rightarrow> ('h \<Rightarrow> 'f) \<Rightarrow> 'h mem \<Rightarrow>
   int \<Rightarrow> int \<Rightarrow> int \<Rightarrow> int \<Rightarrow> int \<Rightarrow> int \<Rightarrow> 'f \<Rightarrow> 'f option" where
  "caffe_cpu_strided_dot_half_loop fadd fmul get_float m n x incx y incy i sumf =
     (if i < n then
        (case int_mul i incx of
           None \<Rightarrow> None
         | Some idx_x \<Rightarrow>
             (case int_mul i incy of
                None \<Rightarrow> None
              | Some idx_y \<Rightarrow>
                  (case m (x + idx_x) of
                     None \<Rightarrow> None
                   | Some xv \<Rightarrow>
                       (case m (y + idx_y) of
                          None \<Rightarrow> None
                        | Some yv \<Rightarrow>
                            caffe_cpu_strided_dot_half_loop fadd fmul get_float m n x incx y incy
                              (i + 1) (fadd sumf (fmul (get_float xv) (get_float yv)))))))
      else Some sumf)"
  by pat_completeness auto
termination
  by (relation "measure (\<lambda>(fadd, fmul, get_float, m, n, x, incx, y, incy, i, sumf). nat (n - i))") auto

declare caffe_cpu_strided_dot_half_loop.simps [simp del]

definition caffe_cpu_strided_dot_half ::
  "('f \<Rightarrow> 'f \<Rightarrow> 'f) \<Rightarrow> ('f \<Rightarrow> 'f \<Rightarrow> 'f) \<Rightarrow> 'f \<Rightarrow> ('h \<Rightarrow> 'f) \<Rightarrow> 'h mem \<Rightarrow>
   int \<Rightarrow> int \<Rightarrow> int \<Rightarrow> int \<Rightarrow> int \<Rightarrow> 'f option" where
  "caffe_cpu_strided_dot_half fadd fmul fzero get_float m n x incx y incy =
     caffe_cpu_strided_dot_half_loop fadd fmul get_float m n x incx y incy 0 fzero"

section \<open>Outcomes of calls that can abort\<close>

text \<open>
  A failed \<^verbatim>\<open>CHECK\<close> (and \<^verbatim>\<open>NO_GPU\<close>, \<^verbatim>\<open>CUDA_CHECK\<close>) logs a fatal message and aborts the
  process. Such a call ends as \<open>Fatal c s\<close>, with the failed check \<open>c\<close> and the state \<open>s\<close> the
  process was in when it aborted; a call that comes back ends as \<open>Returns s\<close>; undefined
  behaviour is \<open>Undefined\<close>.
\<close>

datatype check =
    CHECK_GE_n_0 | CHECK_r | CHECK_LE_a_b | CHECK_GT_sigma_0 | NO_GPU | CUDA_CHECK

datatype 's outcome = Returns 's | Fatal check 's | Undefined

definition NULL :: int where "NULL = 0"

section \<open>Filling a buffer with a constant\<close>

text \<open>
  \<^verbatim>\<open>caffe_set<Dtype,Mtype>\<close> is a template; the model is polymorphic in the same way. An
  element of the storage type is its object representation, a word of the type's width.
  The test \<^verbatim>\<open>alpha == 0\<close> on the compute type and the conversion \<^verbatim>\<open>Get<Dtype>\<close> are the
  parameters \<open>is_zero\<close> and \<open>get\<close>.

  \<^verbatim>\<open>memset(Y, 0, sizeof(Dtype) * N)\<close> clears every byte of \<open>N\<close> elements, so each of them
  becomes the all-zero word. \<open>N\<close> is converted to \<^verbatim>\<open>size_t\<close> in the product: a negative \<open>N\<close>
  asks for more bytes than any buffer has.
\<close>

definition memset_zero :: "'w::len word mem \<Rightarrow> int \<Rightarrow> int \<Rightarrow> 'w word mem option" where
  "memset_zero m Y N =
     (if N < 0 then None
      else if allocated m Y (nat N) then Some (overwrite m Y (replicate (nat N) 0))
      else None)"

function caffe_set_loop ::
  "('m \<Rightarrow> 'w::len word) \<Rightarrow> int \<Rightarrow> 'm \<Rightarrow> int \<Rightarrow> int \<Rightarrow> 'w word mem \<Rightarrow> 'w word mem option" where
  "caffe_set_loop get N alpha Y i m =
     (if i < N then
        (case m (Y + i) of
           None \<Rightarrow> None
         | Some old \<Rightarrow> caffe_set_loop get N alpha Y (i + 1) (m(Y + i := Some (get alpha))))
      else Some m)"
  by pat_completeness auto
termination
  by (relation "measure (\<lambda>(get, N, alpha, Y, i, m). nat (N - i))") auto

declare caffe_set_loop.simps [simp del]

definition caffe_set ::
  "('m \<Rightarrow> bool) \<Rightarrow> ('m \<Rightarrow> 'w::len word) \<Rightarrow> int \<Rightarrow> 'm \<Rightarrow> int \<Rightarrow> 'w word mem \<Rightarrow>
   'w word mem option" where
  "caffe_set is_zero get N alpha Y m =
     (if is_zero alpha then memset_zero m Y N
      else caffe_set_loop get N alpha Y 0 m)"

text \<open>
  The general path of \<^verbatim>\<open>caffe_set\<close>: the per-element store that every \<open>alpha\<close> other than
  zero takes.
\<close>

definition caffe_set_per_element ::
  "('m \<Rightarrow> 'w::len word) \<Rightarrow> int \<Rightarrow> 'm \<Rightarrow> int \<Rightarrow> 'w word mem \<Rightarrow> 'w word mem option" where
  "caffe_set_per_element get N alpha Y m = caffe_set_loop get N alpha Y 0 m"

section \<open>Memory transfer\<close>

text \<open>
  \<^verbatim>\<open>caffe_copy\<close> reads the process-wide execution mode (\<^verbatim>\<open>Caffe::mode()\<close>) and issues a
  host or a device copy. The machine records, besides the memory and the mode, every
  consultation of the mode flag and every copy issued. The build flag \<^verbatim>\<open>CPU_ONLY\<close> and the
  device copy \<^verbatim>\<open>cudaMemcpy\<close> (which may report an error) are parameters.

  \<^verbatim>\<open>memcpy(Y, X, sizeof(Dtype) * N)\<close> copies \<open>N\<close> elements; a negative \<open>N\<close>, an unallocated
  cell or overlapping ranges are undefined behaviour.
\<close>

datatype Brew = CPU | GPU

datatype copy_event = ModeConsulted | HostCopy int int int | DeviceCopy int int int

record 'd copy_machine =
  cmem :: "'d mem"
  mode :: Brew
  issued :: "copy_event list"

definition memcpy :: "'d mem \<Rightarrow> int \<Rightarrow> int \<Rightarrow> int \<Rightarrow> 'd mem option" where
  "memcpy m Y X N =
     (if N < 0 then None
      else if \<not> allocated m X (nat N) \<or> \<not> allocated m Y (nat N) then None
      else if 0 < N \<and> \<bar>Y - X\<bar> < N then None
      else Some (overwrite m Y (cells m X (nat N))))"

definition caffe_copy ::
  "bool \<Rightarrow> ('d mem \<Rightarrow> int \<Rightarrow> int \<Rightarrow> int \<Rightarrow> 'd mem option) \<Rightarrow> int \<Rightarrow> int \<Rightarrow> int \<Rightarrow>
   'd copy_machine \<Rightarrow> 'd copy_machine outcome" where
  "caffe_copy cpu_only cudaMemcpy N X Y s =
     (if X \<noteq> Y then
        (let s1 = s\<lparr>issued := issued s @ [ModeConsulted]\<rparr> in
         if mode s1 = GPU then
           (if cpu_only then Fatal NO_GPU s1
            else
              (let s2 = s1\<lparr>issued := issued s1 @ [DeviceCopy Y X N]\<rparr> in
               case cudaMemcpy (cmem s2) Y X N of
                 None \<Rightarrow> Fatal CUDA_CHECK s2
               | Some m' \<Rightarrow> Returns (s2\<lparr>cmem := m'\<rparr>)))
         else
           (let s2 = s1\<lparr>issued := issued s1 @ [HostCopy Y X N]\<rparr> in
            case memcpy (cmem s2) Y X N of
              None \<Rightarrow> Undefined
            | Some m' \<Rightarrow> Returns (s2\<lparr>cmem := m'\<rparr>)))
      else Returns s)"

section \<open>Floating-point values as bit patterns\<close>

text \<open>
  Where the code compares a compute-type value with zero or casts it to an unsigned integer,
  the value is its IEEE 754 bit pattern: \<^verbatim>\<open>float\<close> is binary32 in a \<open>32 word\<close>, \<^verbatim>\<open>double\<close>
  is binary64 in a \<open>64 word\<close>. A format is given by the widths \<open>ew\<close> of the exponent field
  and \<open>fw\<close> of the fraction field; the pattern is read as a natural number.
\<close>

definition ieee_sign :: "nat \<Rightarrow> nat \<Rightarrow> nat \<Rightarrow> bool" where
  "ieee_sign ew fw bits = ((bits div 2 ^ (ew + fw)) mod 2 = 1)"

definition ieee_exponent :: "nat \<Rightarrow> nat \<Rightarrow> nat \<Rightarrow> nat" where
  "ieee_exponent ew fw bits = (bits div 2 ^ fw) mod 2 ^ ew"

definition ieee_fraction :: "nat \<Rightarrow> nat \<Rightarrow> nat \<Rightarrow> nat" where
  "ieee_fraction ew fw bits = bits mod 2 ^ fw"

definition ieee_is_nan :: "nat \<Rightarrow> nat \<Rightarrow> nat \<Rightarrow> bool" where
  "ieee_is_nan ew fw bits =
     (ieee_exponent ew fw bits = 2 ^ ew - 1 \<and> ieee_fraction ew fw bits \<noteq> 0)"

definition ieee_is_zero :: "nat \<Rightarrow> nat \<Rightarrow> nat \<Rightarrow> bool" where
  "ieee_is_zero ew fw bits = (ieee_exponent ew fw bits = 0 \<and> ieee_fraction ew fw bits = 0)"

text \<open>The comparisons \<^verbatim>\<open>x > 0\<close> and \<^verbatim>\<open>x <= 0\<close>: both are false for a NaN.\<close>

definition ieee_gt_zero :: "nat \<Rightarrow> nat \<Rightarrow> nat \<Rightarrow> bool" where
  "ieee_gt_zero ew fw bits =
     (\<not> ieee_is_nan ew fw bits \<and> \<not> ieee_sign ew fw bits \<and> \<not> ieee_is_zero ew fw bits)"

definition ieee_le_zero :: "nat \<Rightarrow> nat \<Rightarrow> nat \<Rightarrow> bool" where
  "ieee_le_zero ew fw bits =
     (\<not> ieee_is_nan ew fw bits \<and> (ieee_sign ew fw bits \<or> ieee_is_zero ew fw bits))"

text \<open>
  The magnitude of a finite value with its fractional part discarded. A normal number is
  \<open>(2^fw + fraction) * 2^(exponent - bias - fw)\<close> with \<open>bias = 2^(ew-1) - 1\<close>; zeros and
  subnormals are below one.
\<close>

definition ieee_trunc :: "nat \<Rightarrow> nat \<Rightarrow> nat \<Rightarrow> nat" where
  "ieee_trunc ew fw bits =
     (if ieee_exponent ew fw bits = 0 then 0
      else ((2 ^ fw + ieee_fraction ew fw bits) * 2 ^ ieee_exponent ew fw bits)
             div 2 ^ (2 ^ (ew - 1) - 1 + fw))"

text \<open>
  \<^verbatim>\<open>static_cast\<close> from a floating-point type to an unsigned integer type of \<open>width\<close> bits
  truncates toward zero; the behaviour is undefined when the truncated value is not
  representable (NaN, infinity, \<open>-1\<close> or below, \<open>2^width\<close> or above).
\<close>

definition ieee_to_unsigned :: "nat \<Rightarrow> nat \<Rightarrow> nat \<Rightarrow> nat \<Rightarrow> nat option" where
  "ieee_to_unsigned ew fw width bits =
     (if ieee_exponent ew fw bits = 2 ^ ew - 1 then None
      else if ieee_sign ew fw bits \<and> ieee_trunc ew fw bits \<noteq> 0 then None
      else if 2 ^ width \<le> ieee_trunc ew fw bits then None
      else Some (ieee_trunc ew fw bits))"

definition float_gt_zero :: "32 word \<Rightarrow> bool" where
  "float_gt_zero x = ieee_gt_zero 8 23 (unat x)"

definition float_le_zero :: "32 word \<Rightarrow> bool" where
  "float_le_zero x = ieee_le_zero 8 23 (unat x)"

definition float_eq_zero :: "32 word \<Rightarrow> bool" where
  "float_eq_zero x = ieee_is_zero 8 23 (unat x)"

definition double_gt_zero :: "64 word \<Rightarrow> bool" where
  "double_gt_zero x = ieee_gt_zero 11 52 (unat x)"

definition double_le_zero :: "64 word \<Rightarrow> bool" where
  "double_le_zero x = ieee_le_zero 11 52 (unat x)"

definition float_to_uint32 :: "32 word \<Rightarrow> 32 word option" where
  "float_to_uint32 x = map_option of_nat (ieee_to_unsigned 8 23 32 (unat x))"

definition float_to_uint16 :: "32 word \<Rightarrow> 16 word option" where
  "float_to_uint16 x = map_option of_nat (ieee_to_unsigned 8 23 16 (unat x))"

definition double_to_uint64 :: "64 word \<Rightarrow> 64 word option" where
  "double_to_uint64 x = map_option of_nat (ieee_to_unsigned 11 52 64 (unat x))"

section \<open>Gaussian sampling\<close>

text \<open>
  \<^verbatim>\<open>caffe_rng_gaussian<Dtype,Mtype>\<close>. The machine is the output memory and the state of the
  process-wide generator. Drawing one sample from \<^verbatim>\<open>boost::normal_distribution\<close> through
  the generator is the parameter \<open>normal_distribution\<close>, which returns the sample and the
  new generator state; \<open>gt_zero\<close> is the comparison \<^verbatim>\<open>sigma > 0\<close> of the compute type and
  \<open>get\<close> is \<^verbatim>\<open>Get<Dtype>\<close>.
\<close>

record ('d, 'g) rng_machine =
  rmem :: "'d mem"
  rng :: 'g

function caffe_rng_gaussian_loop ::
  "('g \<Rightarrow> 'm \<times> 'g) \<Rightarrow> ('m \<Rightarrow> 'd) \<Rightarrow> int \<Rightarrow> int \<Rightarrow> int \<Rightarrow> ('d, 'g) rng_machine \<Rightarrow>
   ('d, 'g) rng_machine outcome" where
  "caffe_rng_gaussian_loop variate_generator get n r i s =
     (if i < n then
        (case variate_generator (rng s) of
           (v, g') \<Rightarrow>
             (case rmem s (r + i) of
                None \<Rightarrow> Undefined
              | Some old \<Rightarrow>
                  caffe_rng_gaussian_loop variate_generator get n r (i + 1)
                    \<lparr>rmem = (rmem s)(r + i := Some (get v)), rng = g'\<rparr>))
      else Returns s)"
  by pat_completeness auto
termination
  by (relation "measure (\<lambda>(variate_generator, get, n, r, i, s). nat (n - i))") auto

declare caffe_rng_gaussian_loop.simps [simp del]

definition caffe_rng_gaussian ::
  "('m \<Rightarrow> bool) \<Rightarrow> ('m \<Rightarrow> 'm \<Rightarrow> 'g \<Rightarrow> 'm \<times> 'g) \<Rightarrow> ('m \<Rightarrow> 'd) \<Rightarrow> int \<Rightarrow> 'm \<Rightarrow> 'm \<Rightarrow> int \<Rightarrow>
   ('d, 'g) rng_machine \<Rightarrow> ('d, 'g) rng_machine outcome" where
  "caffe_rng_gaussian gt_zero normal_distribution get n a sigma r s =
     (if \<not> 0 \<le> n then Fatal CHECK_GE_n_0 s
      else if r = NULL then Fatal CHECK_r s
      else if \<not> gt_zero sigma then Fatal CHECK_GT_sigma_0 s
      else caffe_rng_gaussian_loop (normal_distribution a sigma) get n r 0 s)"

section \<open>Uniform sampling\<close>






section \<open>Hamming distance\<close>

text \<open>
  \<^verbatim>\<open>__builtin_popcount\<close> and \<^verbatim>\<open>__builtin_popcountl\<close>: the number of one bits of an unsigned
  word (\<^verbatim>\<open>unsigned long\<close> is taken to be 64 bits wide).
\<close>

definition popcount :: "'w::len word \<Rightarrow> int" where
  "popcount w = int (length (filter (bit w) [0..<LENGTH('w)]))"

text \<open>
  The three specialisations of \<^verbatim>\<open>caffe_cpu_hamming_distance\<close> share one loop and differ in
  the cast applied to each element, the parameter \<open>cast\<close>: \<^verbatim>\<open>static_cast<uint32_t>\<close> of a
  \<^verbatim>\<open>float\<close>, \<^verbatim>\<open>static_cast<uint64_t>\<close> of a \<^verbatim>\<open>double\<close>, and
  \<^verbatim>\<open>static_cast<uint16_t>(Get<float>(.))\<close> of a \<^verbatim>\<open>half\<close>. The counter \<open>dist\<close> is an \<^verbatim>\<open>int\<close>.
\<close>

function caffe_cpu_hamming_distance_loop ::
  "('d \<Rightarrow> 'w::len word option) \<Rightarrow> 'd mem \<Rightarrow> int \<Rightarrow> int \<Rightarrow> int \<Rightarrow> int \<Rightarrow> int \<Rightarrow> int option" where
  "caffe_cpu_hamming_distance_loop cast m n x y i dist =
     (if i < n then
        (case m (x + i) of
           None \<Rightarrow> None
         | Some xi \<Rightarrow>
             (case m (y + i) of
                None \<Rightarrow> None
              | Some yi \<Rightarrow>
                  (case cast xi of
                     None \<Rightarrow> None
                   | Some u \<Rightarrow>
                       (case cast yi of
                          None \<Rightarrow> None
                        | Some v \<Rightarrow>
                            (case int_add dist (popcount (u XOR v)) of
                               None \<Rightarrow> None
                             | Some dist' \<Rightarrow>
                                 caffe_cpu_hamming_distance_loop cast m n x y (i + 1) dist')))))
      else Some dist)"
  by pat_completeness auto
termination
  by (relation "measure (\<lambda>(cast, m, n, x, y, i, dist). nat (n - i))") auto

declare caffe_cpu_hamming_distance_loop.simps [simp del]

definition caffe_cpu_hamming_distance_float :: "32 word mem \<Rightarrow> int \<Rightarrow> int \<Rightarrow> int \<Rightarrow> int option" where
  "caffe_cpu_hamming_distance_float m n x y =
     caffe_cpu_hamming_distance_loop float_to_uint32 m n x y 0 0"

definition caffe_cpu_hamming_distance_double :: "64 word mem \<Rightarrow> int \<Rightarrow> int \<Rightarrow> int \<Rightarrow> int option" where
  "caffe_cpu_hamming_distance_double m n x y =
     caffe_cpu_hamming_distance_loop double_to_uint64 m n x y 0 0"

definition caffe_cpu_hamming_distance_half ::
  "('h \<Rightarrow> 32 word) \<Rightarrow> 'h mem \<Rightarrow> int \<Rightarrow> int \<Rightarrow> int \<Rightarrow> int option" where
  "caffe_cpu_hamming_distance_half get_float m n x y =
     caffe_cpu_hamming_distance_loop (\<lambda>h. float_to_uint16 (get_float h)) m n x y 0 0"

text \<open>
  The distance as the specification words it for the native types: the elements are
  reinterpreted as unsigned integers of their own width, that is, the bit patterns
  themselves are compared.
\<close>

definition hamming_distance_of_bit_patterns :: "'w::len word mem \<Rightarrow> int \<Rightarrow> int \<Rightarrow> int \<Rightarrow> int" where
  "hamming_distance_of_bit_patterns m n x y =
     sum_list (map (\<lambda>i. popcount (the (m (x + i)) XOR the (m (y + i)))) [0..n - 1])"

text \<open>
  The distance of the elements after the cast the code applies, for buffers on which
  every cast is defined.
\<close>

definition hamming_distance_of_casts ::
  "('d \<Rightarrow> 'w::len word option) \<Rightarrow> 'd mem \<Rightarrow> int \<Rightarrow> int \<Rightarrow> int \<Rightarrow> int" where
  "hamming_distance_of_casts cast m n x y =
     sum_list (map (\<lambda>i. popcount (the (cast (the (m (x + i)))) XOR the (cast (the (m (y + i))))))
       [0..n - 1])"

text \<open>
  Every element of the \<open>n\<close>-element buffer at \<open>p\<close> is allocated and has a defined cast.
\<close>

definition castable :: "('d \<Rightarrow> 'w::len word option) \<Rightarrow> 'd mem \<Rightarrow> int \<Rightarrow> int \<Rightarrow> bool" where
  "castable cast m n p =
     list_all (\<lambda>i. case m (p + i) of None \<Rightarrow> False | Some v \<Rightarrow> cast v \<noteq> None) [0..n - 1]"

section \<open>Properties of memory and of the buffer conversions\<close>

lemma caffe_cpu_convert_from_allocated:
  "allocated m p n \<Longrightarrow>
   caffe_cpu_convert_from get n m p = Some (map get (cells m p n))"
proof (induction n arbitrary: p)
  case 0
  show ?case by (simp add: cells_def)
next
  case (Suc n)
  from Suc.prems have "m (p + int 0) \<noteq> None"
    unfolding allocated_def by blast
  then have here: "m p \<noteq> None" by simp
  have "allocated m (p + 1) n"
    unfolding allocated_def
  proof (intro allI impI)
    fix i assume "i < n"
    then have "m (p + int (Suc i)) \<noteq> None"
      using Suc.prems unfolding allocated_def by blast
    moreover have "p + int (Suc i) = p + 1 + int i" by simp
    ultimately show "m (p + 1 + int i) \<noteq> None" by metis
  qed
  then have rest: "caffe_cpu_convert_from get n m (p + 1) = Some (map get (cells m (p + 1) n))"
    by (rule Suc.IH)
  have shift: "cells m p (Suc n) = the (m p) # cells m (p + 1) n"
    unfolding cells_def
    by (simp add: upt_conv_Cons map_Suc_upt [symmetric] ac_simps del: upt_Suc)
  from here obtain v where v: "m p = Some v" by blast
  show ?case by (simp add: v rest shift)
qed

lemma caffe_cpu_convert_to_allocated:
  "allocated m p (length xs) \<Longrightarrow>
   caffe_cpu_convert_to get xs m p = Some (overwrite m p (map get xs))"
proof (induction xs arbitrary: m p)
  case Nil
  show ?case by (auto simp: overwrite_def fun_eq_iff)
next
  case (Cons v vs)
  from Cons.prems have "m (p + int 0) \<noteq> None"
    unfolding allocated_def by force
  then have here: "m p \<noteq> None" by simp
  have "allocated (m(p := Some (get v))) (p + 1) (length vs)"
    unfolding allocated_def
  proof (intro allI impI)
    fix i assume "i < length vs"
    then have "Suc i < length (v # vs)" by simp
    then have "m (p + int (Suc i)) \<noteq> None"
      using Cons.prems unfolding allocated_def by blast
    moreover have "p + int (Suc i) = p + 1 + int i" by simp
    ultimately have "m (p + 1 + int i) \<noteq> None" by metis
    then show "(m(p := Some (get v))) (p + 1 + int i) \<noteq> None" by simp
  qed
  then have rest: "caffe_cpu_convert_to get vs (m(p := Some (get v))) (p + 1) =
      Some (overwrite (m(p := Some (get v))) (p + 1) (map get vs))"
    by (rule Cons.IH)
  have same: "overwrite (m(p := Some (get v))) (p + 1) (map get vs) =
      overwrite m p (map get (v # vs))"
  proof (rule ext)
    fix q
    show "overwrite (m(p := Some (get v))) (p + 1) (map get vs) q =
        overwrite m p (map get (v # vs)) q"
    proof (cases "q = p")
      case True
      then show ?thesis by (simp add: overwrite_def)
    next
      case False
      have "nat (q - p) = Suc (nat (q - (p + 1)))" if "p + 1 \<le> q"
        using that by simp
      then show ?thesis using False by (auto simp: overwrite_def)
    qed
  qed
  from here obtain old where old: "m p = Some old" by blast
  show ?case by (simp add: old rest same)
qed

lemma int_mul_fits: "0 \<le> a \<Longrightarrow> 0 \<le> b \<Longrightarrow> a * b \<le> INT_MAX \<Longrightarrow> int_mul a b = Some (a * b)"
proof -
  assume "0 \<le> a" "0 \<le> b" and le: "a * b \<le> INT_MAX"
  then have "0 \<le> a * b" by simp
  then show ?thesis using le by (simp add: int_mul_def INT_MIN_def)
qed

lemma overwrite_inside: "i < length xs \<Longrightarrow> overwrite m p xs (p + int i) = Some (xs ! i)"
  by (simp add: overwrite_def)

lemma overwrite_outside: "q < p \<or> p + int (length xs) \<le> q \<Longrightarrow> overwrite m p xs q = m q"
  by (auto simp: overwrite_def)

lemma allocated_overwrite:
  "p \<le> q \<Longrightarrow> q + int n \<le> p + int (length xs) \<Longrightarrow> allocated (overwrite m p xs) q n"
  by (simp add: allocated_def overwrite_def)

lemma cells_overwrite:
  "k + n \<le> length xs \<Longrightarrow> cells (overwrite m p xs) (p + int k) n = take n (drop k xs)"
  by (rule nth_equalityI) (simp_all add: cells_def overwrite_def nat_add_distrib ac_simps)

lemma allocated_nothing: "allocated m p 0"
  by (simp add: allocated_def)

lemma allocated_as_float: "allocated (as_float g m) p n = allocated m p n"
  by (simp add: allocated_def as_float_def)

lemma cells_as_float: "allocated m p n \<Longrightarrow> cells (as_float g m) p n = map g (cells m p n)"
  by (auto simp: cells_def as_float_def allocated_def)

lemma cells_overwrite_same: "length xs = n \<Longrightarrow> cells (overwrite m p xs) p n = xs"
  by (rule nth_equalityI) (auto simp: cells_def overwrite_def)

section \<open>The reduced-precision gemm with positive dimensions\<close>

lemma caffe_cpu_gemm_half_runs:
  assumes pos: "0 < M" "0 < N" "0 < K"
    and fits: "M * K \<le> INT_MAX" "K * N \<le> INT_MAX" "M * N \<le> INT_MAX"
    and bufs: "allocated (hmem s) A (nat (M * K))" "allocated (hmem s) B (nat (K * N))"
      "allocated (hmem s) C (nat (M * N))"
  shows "caffe_cpu_gemm_half cblas_sgemm get_float get_half TransA TransB M N K alpha A B beta C s =
      Some \<lparr>hmem = overwrite (hmem s) C (map get_half
               (map (cblas_sgemm TransA TransB M N K alpha
                       (map get_float (cells (hmem s) A (nat (M * K))))
                       (if TransA = CblasNoTrans then K else M)
                       (map get_float (cells (hmem s) B (nat (K * N))))
                       (if TransB = CblasNoTrans then N else K) beta
                       (map get_float (cells (hmem s) C (nat (M * N)))) N)
                  [0..<nat (M * N)])),
            trace = trace s @
              [VectorAlloc (nat (M * K)), VectorAlloc (nat (K * N)), VectorAlloc (nat (M * N)),
               Sgemm TransA TransB M N K alpha
                 (map get_float (cells (hmem s) A (nat (M * K))))
                 (if TransA = CblasNoTrans then K else M)
                 (map get_float (cells (hmem s) B (nat (K * N))))
                 (if TransB = CblasNoTrans then N else K) beta
                 (map get_float (cells (hmem s) C (nat (M * N)))) N]\<rparr>"
proof -
  define a where "a = map get_float (cells (hmem s) A (nat (M * K)))"
  define b where "b = map get_float (cells (hmem s) B (nat (K * N)))"
  define c where "c = map get_float (cells (hmem s) C (nat (M * N)))"
  define lda where "lda = (if TransA = CblasNoTrans then K else M)"
  define ldb where "ldb = (if TransB = CblasNoTrans then N else K)"
  define c' where
    "c' = map (cblas_sgemm TransA TransB M N K alpha a lda b ldb beta c N) [0..<nat (M * N)]"
  have len_c: "length c = nat (M * N)" by (simp add: c_def cells_def)
  have len_c': "length c' = nat (M * N)" by (simp add: c'_def)
  have na: "int_mul M K = Some (M * K)" using pos fits by (simp add: int_mul_fits)
  have nb: "int_mul K N = Some (K * N)" using pos fits by (simp add: int_mul_fits)
  have nc: "int_mul M N = Some (M * N)" using pos fits by (simp add: int_mul_fits)
  have la: "caffe_cpu_convert_from get_float (nat (M * K)) (hmem s) A = Some a"
    unfolding a_def by (rule caffe_cpu_convert_from_allocated [OF bufs(1)])
  have lb: "caffe_cpu_convert_from get_float (nat (K * N)) (hmem s) B = Some b"
    unfolding b_def by (rule caffe_cpu_convert_from_allocated [OF bufs(2)])
  have lc: "caffe_cpu_convert_from get_float (nat (M * N)) (hmem s) C = Some c"
    unfolding c_def by (rule caffe_cpu_convert_from_allocated [OF bufs(3)])
  have "allocated (hmem s) C (length c')" using bufs(3) by (simp add: len_c')
  then have st: "caffe_cpu_convert_to get_half c' (hmem s) C =
      Some (overwrite (hmem s) C (map get_half c'))"
    by (rule caffe_cpu_convert_to_allocated)
  have c'_alt: "map (cblas_sgemm TransA TransB M N K alpha a lda b ldb beta c N) [0..<length c] = c'"
    by (simp add: c'_def len_c)
  have "caffe_cpu_gemm_half cblas_sgemm get_float get_half TransA TransB M N K alpha A B beta C s =
      Some \<lparr>hmem = overwrite (hmem s) C (map get_half c'),
            trace = trace s @
              [VectorAlloc (nat (M * K)), VectorAlloc (nat (K * N)), VectorAlloc (nat (M * N)),
               Sgemm TransA TransB M N K alpha a lda b ldb beta c N]\<rparr>"
    unfolding caffe_cpu_gemm_half_def
    using pos by (simp add: na nb nc la lb lc lda_def [symmetric] ldb_def [symmetric] c'_alt st)
  then show ?thesis
    unfolding c'_def a_def b_def c_def lda_def ldb_def .
qed

lemma caffe_cpu_gemv_half_runs:
  assumes pos: "0 < M" "0 < N"
    and fits: "M * N \<le> INT_MAX"
    and bufs: "allocated (hmem s) A (nat (M * N))"
      "allocated (hmem s) x (nat (if TransA = CblasNoTrans then N else M))"
      "allocated (hmem s) y (nat (if TransA = CblasNoTrans then M else N))"
  shows "caffe_cpu_gemv_half cblas_sgemv get_float get_half TransA M N alpha A x beta y s =
      Some \<lparr>hmem = overwrite (hmem s) y (map get_half
               (map (cblas_sgemv TransA M N alpha
                       (map get_float (cells (hmem s) A (nat (M * N)))) N
                       (map get_float (cells (hmem s) x (nat (if TransA = CblasNoTrans then N else M)))) 1
                       beta
                       (map get_float (cells (hmem s) y (nat (if TransA = CblasNoTrans then M else N)))) 1)
                  [0..<nat (if TransA = CblasNoTrans then M else N)])),
            trace = trace s @
              [VectorAlloc (nat (M * N)), VectorAlloc (nat (if TransA = CblasNoTrans then N else M)),
               VectorAlloc (nat (if TransA = CblasNoTrans then M else N)),
               Sgemv TransA M N alpha
                 (map get_float (cells (hmem s) A (nat (M * N)))) N
                 (map get_float (cells (hmem s) x (nat (if TransA = CblasNoTrans then N else M)))) 1
                 beta
                 (map get_float (cells (hmem s) y (nat (if TransA = CblasNoTrans then M else N)))) 1]\<rparr>"
proof -
  define lx where "lx = (if TransA = CblasNoTrans then N else M)"
  define ly where "ly = (if TransA = CblasNoTrans then M else N)"
  define a where "a = map get_float (cells (hmem s) A (nat (M * N)))"
  define xv where "xv = map get_float (cells (hmem s) x (nat lx))"
  define yv where "yv = map get_float (cells (hmem s) y (nat ly))"
  define yv' where "yv' = map (cblas_sgemv TransA M N alpha a N xv 1 beta yv 1) [0..<nat ly]"
  have len_y: "length yv = nat ly" by (simp add: yv_def cells_def)
  have len_y': "length yv' = nat ly" by (simp add: yv'_def)
  have na: "int_mul M N = Some (M * N)" using pos fits by (simp add: int_mul_fits)
  have la: "caffe_cpu_convert_from get_float (nat (M * N)) (hmem s) A = Some a"
    unfolding a_def by (rule caffe_cpu_convert_from_allocated [OF bufs(1)])
  have lxv: "caffe_cpu_convert_from get_float (nat lx) (hmem s) x = Some xv"
    unfolding xv_def lx_def by (rule caffe_cpu_convert_from_allocated [OF bufs(2)])
  have lyv: "caffe_cpu_convert_from get_float (nat ly) (hmem s) y = Some yv"
    unfolding yv_def ly_def by (rule caffe_cpu_convert_from_allocated [OF bufs(3)])
  have "allocated (hmem s) y (length yv')" using bufs(3) by (simp add: len_y' ly_def)
  then have st: "caffe_cpu_convert_to get_half yv' (hmem s) y =
      Some (overwrite (hmem s) y (map get_half yv'))"
    by (rule caffe_cpu_convert_to_allocated)
  have yv'_alt: "map (cblas_sgemv TransA M N alpha a N xv 1 beta yv 1) [0..<length yv] = yv'"
    by (simp add: yv'_def len_y)
  have "caffe_cpu_gemv_half cblas_sgemv get_float get_half TransA M N alpha A x beta y s =
      Some \<lparr>hmem = overwrite (hmem s) y (map get_half yv'),
            trace = trace s @
              [VectorAlloc (nat (M * N)), VectorAlloc (nat lx), VectorAlloc (nat ly),
               Sgemv TransA M N alpha a N xv 1 beta yv 1]\<rparr>"
    unfolding caffe_cpu_gemv_half_def
    using pos by (simp add: na la lxv lyv lx_def [symmetric] ly_def [symmetric] yv'_alt st)
  then show ?thesis
    unfolding yv'_def a_def xv_def yv_def lx_def ly_def .
qed

text \<open>
  Claim C1. With \<open>M > 0\<close>, \<open>N > 0\<close>, \<open>K > 0\<close> (sizes that fit an \<^verbatim>\<open>int\<close>, buffers
  allocated), \<^verbatim>\<open>caffe_cpu_gemm<half,float>\<close> allocates three compute-type temporaries of
  sizes \<open>M*K\<close>, \<open>K*N\<close> and \<open>M*N\<close>, converts \<open>A\<close>, \<open>B\<close> and the old contents of \<open>C\<close>
  into them, calls the backend once on these temporaries and converts the \<open>M*N\<close> results back
  into \<open>C\<close>, leaving every other cell alone. In particular, for a backend that computes
  \<open>alpha * ab + beta * c\<close> elementwise (\<open>ab\<close> the entries of \<open>op(A) * op(B)\<close>), cell \<open>i\<close> of
  \<open>C\<close> ends as the conversion of \<open>alpha * ab i + beta * old C i\<close>, for every \<open>beta\<close>.
\<close>

theorem caffe_cpu_gemm_half_accumulates_old_C:
  assumes pos: "0 < M" "0 < N" "0 < K"
    and fits: "M * K \<le> INT_MAX" "K * N \<le> INT_MAX" "M * N \<le> INT_MAX"
    and bufs: "allocated (hmem s) A (nat (M * K))" "allocated (hmem s) B (nat (K * N))"
      "allocated (hmem s) C (nat (M * N))"
  shows "let a = map get_float (cells (hmem s) A (nat (M * K)));
             b = map get_float (cells (hmem s) B (nat (K * N)));
             c = map get_float (cells (hmem s) C (nat (M * N)));
             lda = (if TransA = CblasNoTrans then K else M);
             ldb = (if TransB = CblasNoTrans then N else K);
             c' = map (cblas_sgemm TransA TransB M N K alpha a lda b ldb beta c N) [0..<nat (M * N)]
         in caffe_cpu_gemm_half cblas_sgemm get_float get_half TransA TransB M N K alpha A B beta C s =
              Some \<lparr>hmem = overwrite (hmem s) C (map get_half c'),
                    trace = trace s @
                      [VectorAlloc (nat (M * K)), VectorAlloc (nat (K * N)), VectorAlloc (nat (M * N)),
                       Sgemm TransA TransB M N K alpha a lda b ldb beta c N]\<rparr>
            \<and> ((\<forall>c0. \<forall>i<nat (M * N).
                   cblas_sgemm TransA TransB M N K alpha a lda b ldb beta c0 N i =
                     fadd (fmul alpha (ab i)) (fmul beta (c0 ! i)))
                \<longrightarrow> (\<forall>i<nat (M * N).
                      overwrite (hmem s) C (map get_half c') (C + int i) =
                        Some (get_half (fadd (fmul alpha (ab i))
                                (fmul beta (get_float (the (hmem s (C + int i)))))))))"
proof -
  define a where "a = map get_float (cells (hmem s) A (nat (M * K)))"
  define b where "b = map get_float (cells (hmem s) B (nat (K * N)))"
  define c where "c = map get_float (cells (hmem s) C (nat (M * N)))"
  define lda where "lda = (if TransA = CblasNoTrans then K else M)"
  define ldb where "ldb = (if TransB = CblasNoTrans then N else K)"
  define c' where "c' = map (cblas_sgemm TransA TransB M N K alpha a lda b ldb beta c N) [0..<nat (M * N)]"
  have len_c: "length c = nat (M * N)" by (simp add: c_def cells_def)
  have len_c': "length c' = nat (M * N)" by (simp add: c'_def)
  have run: "caffe_cpu_gemm_half cblas_sgemm get_float get_half TransA TransB M N K alpha A B beta C s =
      Some \<lparr>hmem = overwrite (hmem s) C (map get_half c'),
            trace = trace s @
              [VectorAlloc (nat (M * K)), VectorAlloc (nat (K * N)), VectorAlloc (nat (M * N)),
               Sgemm TransA TransB M N K alpha a lda b ldb beta c N]\<rparr>"
    unfolding c'_def a_def b_def c_def lda_def ldb_def
    by (rule caffe_cpu_gemm_half_runs [OF pos fits bufs])
  have acc: "overwrite (hmem s) C (map get_half c') (C + int i) =
        Some (get_half (fadd (fmul alpha (ab i)) (fmul beta (get_float (the (hmem s (C + int i)))))))"
    if contract: "\<forall>c0. \<forall>i<nat (M * N).
        cblas_sgemm TransA TransB M N K alpha a lda b ldb beta c0 N i =
          fadd (fmul alpha (ab i)) (fmul beta (c0 ! i))"
      and i: "i < nat (M * N)" for i
  proof -
    have "c' ! i = fadd (fmul alpha (ab i)) (fmul beta (c ! i))"
      using contract i by (simp add: c'_def)
    moreover have "c ! i = get_float (the (hmem s (C + int i)))"
      using i by (simp add: c_def cells_def)
    ultimately show ?thesis using i by (simp add: overwrite_inside len_c')
  qed
  show ?thesis
    unfolding Let_def a_def [symmetric] b_def [symmetric] c_def [symmetric]
      lda_def [symmetric] ldb_def [symmetric]
    unfolding c'_def [symmetric]
    using run acc by blast
qed

theorem caffe_cpu_gemm_half_accumulates_old_C_witness:
  "(0::int) < 2 \<and> (2::int) * 2 \<le> INT_MAX \<and>
   allocated (overwrite (\<lambda>_. None) 0 [1, 0, 0, 1, 1, 2, 3, 4, 10, 20, 30, 40 :: int]) 8 4 \<and>
   caffe_cpu_gemm_half sgemm_textbook (\<lambda>h. h) (\<lambda>f. f) CblasNoTrans CblasNoTrans 2 2 2 1 0 4 2 8
     \<lparr>hmem = overwrite (\<lambda>_. None) 0 [1, 0, 0, 1, 1, 2, 3, 4, 10, 20, 30, 40], trace = []\<rparr> =
     Some \<lparr>hmem = overwrite (overwrite (\<lambda>_. None) 0 [1, 0, 0, 1, 1, 2, 3, 4, 10, 20, 30, 40]) 8
                    [21, 42, 63, 84],
           trace = [VectorAlloc 4, VectorAlloc 4, VectorAlloc 4,
                    Sgemm CblasNoTrans CblasNoTrans 2 2 2 1 [1, 0, 0, 1] 2 [1, 2, 3, 4] 2 2
                      [10, 20, 30, 40] 2]\<rparr> \<and>
   overwrite (overwrite (\<lambda>_. None) 0 [1, 0, 0, 1, 1, 2, 3, 4, 10, 20, 30, 40 :: int]) 8
       [21, 42, 63, 84] (8 + int 3) =
     Some (1 * [1, 2, 3, 4] ! 3 +
           2 * the (overwrite (\<lambda>_. None) 0 [1, 0, 0, 1, 1, 2, 3, 4, 10, 20, 30, 40] (8 + int 3)))"
proof -
  let ?xs = "[1, 0, 0, 1, 1, 2, 3, 4, 10, 20, 30, 40 :: int]"
  let ?m = "overwrite (\<lambda>_. None) 0 ?xs"
  let ?s = "\<lparr>hmem = ?m, trace = ([] :: int event list)\<rparr>"
  let ?g = "sgemm_textbook CblasNoTrans CblasNoTrans 2 2 2 1 [1, 0, 0, 1] 2 [1, 2, 3, 4] 2 2"
  have pos: "(0::int) < 2" by simp
  have fits: "(2::int) * 2 \<le> INT_MAX" by (simp add: INT_MAX_def)
  have bA: "allocated (hmem ?s) 0 (nat (2 * 2))" by (simp add: allocated_overwrite)
  have bB: "allocated (hmem ?s) 4 (nat (2 * 2))" by (simp add: allocated_overwrite)
  have bC: "allocated (hmem ?s) 8 (nat (2 * 2))" by (simp add: allocated_overwrite)
  have cA: "cells ?m 0 4 = [1, 0, 0, 1]" using cells_overwrite [of 0 4 ?xs "\<lambda>_. None" 0] by simp
  have cB: "cells ?m 4 4 = [1, 2, 3, 4]" using cells_overwrite [of 4 4 ?xs "\<lambda>_. None" 0] by simp
  have cC: "cells ?m 8 4 = [10, 20, 30, 40]" using cells_overwrite [of 8 4 ?xs "\<lambda>_. None" 0] by simp
  have g: "?g c0 2 i = 1 * [1, 2, 3, 4] ! i + 2 * c0 ! i" if "i < 4" for c0 i
  proof -
    have two: "[0..<2] = [0, Suc 0]" by (simp add: numeral_2_eq_2)
    from that consider "i = 0" | "i = 1" | "i = 2" | "i = 3" by linarith
    then show ?thesis by cases (simp_all add: sgemm_textbook_def two)
  qed
  have four: "[0..<4] = [0, 1, 2, 3]" by (simp add: upt_rec)
  have v: "map (?g [10, 20, 30, 40] 2) [0..<4] = [21, 42, 63, 84]"
    by (simp add: four g)
  note T = caffe_cpu_gemm_half_accumulates_old_C [OF pos pos pos fits fits fits bA bB bC,
        where cblas_sgemm = sgemm_textbook and get_float = "\<lambda>h. h" and get_half = "\<lambda>f. f"
          and TransA = CblasNoTrans and TransB = CblasNoTrans and alpha = 1 and beta = 2
          and fadd = "(+)" and fmul = "(*)" and ab = "\<lambda>i. [1, 2, 3, 4] ! i"]
  have run: "caffe_cpu_gemm_half sgemm_textbook (\<lambda>h. h) (\<lambda>f. f) CblasNoTrans CblasNoTrans 2 2 2 1 0 4 2 8 ?s =
     Some \<lparr>hmem = overwrite ?m 8 [21, 42, 63, 84],
           trace = [VectorAlloc 4, VectorAlloc 4, VectorAlloc 4,
                    Sgemm CblasNoTrans CblasNoTrans 2 2 2 1 [1, 0, 0, 1] 2 [1, 2, 3, 4] 2 2
                      [10, 20, 30, 40] 2]\<rparr>"
    using T by (simp add: Let_def cA cB cC v)
  have acc: "\<forall>i<4. overwrite ?m 8 [21, 42, 63, 84] (8 + int i) =
            Some (1 * [1, 2, 3, 4] ! i + 2 * the (?m (8 + int i)))"
    using T g by (simp add: Let_def cA cB cC v)
  from acc have "overwrite ?m 8 [21, 42, 63, 84] (8 + int 3) =
      Some (1 * [1, 2, 3, 4] ! 3 + 2 * the (?m (8 + int 3)))"
    by (simp del: of_nat_numeral)
  then show ?thesis using pos fits bC run by simp
qed

section \<open>The two paths side by side\<close>

text \<open>
  Claim C2, as amended. For positive dimensions (\<open>M, N, K > 0\<close> for gemm, \<open>M, N > 0\<close> for
  gemv; sizes that fit an \<^verbatim>\<open>int\<close>, buffers allocated) and identical logical inputs, what the
  reduced-precision path leaves in the output buffer is, element by element, the storage
  conversion of what the native single-precision path produces on the converted inputs: the
  two results differ by the rounding of that one conversion and by nothing else. This holds
  for every backend and every pair of conversions.
\<close>

theorem reduced_precision_paths_agree_for_positive_dimensions:
  "(0 < M \<and> 0 < N \<and> 0 < K \<and> M * K \<le> INT_MAX \<and> K * N \<le> INT_MAX \<and> M * N \<le> INT_MAX \<and>
    allocated (hmem s) A (nat (M * K)) \<and> allocated (hmem s) B (nat (K * N)) \<and>
    allocated (hmem s) C (nat (M * N)) \<longrightarrow>
    gemm_paths_agree cblas_sgemm get_float get_half TransA TransB M N K alpha A B beta C s) \<and>
   (0 < M \<and> 0 < N \<and> M * N \<le> INT_MAX \<and>
    allocated (hmem s) A (nat (M * N)) \<and>
    allocated (hmem s) x (nat (if TransA = CblasNoTrans then N else M)) \<and>
    allocated (hmem s) y (nat (if TransA = CblasNoTrans then M else N)) \<longrightarrow>
    gemv_paths_agree cblas_sgemv get_float get_half TransA M N alpha A x beta y s)"
proof (intro conjI impI)
  assume h: "0 < M \<and> 0 < N \<and> 0 < K \<and> M * K \<le> INT_MAX \<and> K * N \<le> INT_MAX \<and> M * N \<le> INT_MAX \<and>
    allocated (hmem s) A (nat (M * K)) \<and> allocated (hmem s) B (nat (K * N)) \<and>
    allocated (hmem s) C (nat (M * N))"
  let ?r = "map (cblas_sgemm TransA TransB M N K alpha
                       (map get_float (cells (hmem s) A (nat (M * K))))
                       (if TransA = CblasNoTrans then K else M)
                       (map get_float (cells (hmem s) B (nat (K * N))))
                       (if TransB = CblasNoTrans then N else K) beta
                       (map get_float (cells (hmem s) C (nat (M * N)))) N)
                  [0..<nat (M * N)]"
  have len: "length ?r = nat (M * N)" by simp
  from h have half: "caffe_cpu_gemm_half cblas_sgemm get_float get_half TransA TransB M N K alpha
      A B beta C s =
      Some \<lparr>hmem = overwrite (hmem s) C (map get_half ?r),
            trace = trace s @
              [VectorAlloc (nat (M * K)), VectorAlloc (nat (K * N)), VectorAlloc (nat (M * N)),
               Sgemm TransA TransB M N K alpha
                 (map get_float (cells (hmem s) A (nat (M * K))))
                 (if TransA = CblasNoTrans then K else M)
                 (map get_float (cells (hmem s) B (nat (K * N))))
                 (if TransB = CblasNoTrans then N else K) beta
                 (map get_float (cells (hmem s) C (nat (M * N)))) N]\<rparr>"
    by (intro caffe_cpu_gemm_half_runs) simp_all
  from h have native: "caffe_cpu_gemm_float cblas_sgemm TransA TransB M N K alpha A B beta C
      (as_float get_float (hmem s)) = Some (overwrite (as_float get_float (hmem s)) C ?r)"
    by (simp add: caffe_cpu_gemm_float_def allocated_as_float cells_as_float Let_def)
  have "cells (overwrite (hmem s) C (map get_half ?r)) C (nat (M * N)) = map get_half ?r"
    by (rule cells_overwrite_same) simp
  moreover have "cells (overwrite (as_float get_float (hmem s)) C ?r) C (nat (M * N)) = ?r"
    by (rule cells_overwrite_same) simp
  ultimately show "gemm_paths_agree cblas_sgemm get_float get_half TransA TransB M N K alpha A B beta C s"
    using half native by (simp add: gemm_paths_agree_def)
next
  assume h: "0 < M \<and> 0 < N \<and> M * N \<le> INT_MAX \<and>
    allocated (hmem s) A (nat (M * N)) \<and>
    allocated (hmem s) x (nat (if TransA = CblasNoTrans then N else M)) \<and>
    allocated (hmem s) y (nat (if TransA = CblasNoTrans then M else N))"
  let ?lx = "if TransA = CblasNoTrans then N else M"
  let ?ly = "if TransA = CblasNoTrans then M else N"
  let ?r = "map (cblas_sgemv TransA M N alpha
                       (map get_float (cells (hmem s) A (nat (M * N)))) N
                       (map get_float (cells (hmem s) x (nat ?lx))) 1
                       beta
                       (map get_float (cells (hmem s) y (nat ?ly))) 1)
                  [0..<nat ?ly]"
  have len: "length ?r = nat ?ly" by simp
  from h have half: "caffe_cpu_gemv_half cblas_sgemv get_float get_half TransA M N alpha A x beta y s =
      Some \<lparr>hmem = overwrite (hmem s) y (map get_half ?r),
            trace = trace s @
              [VectorAlloc (nat (M * N)), VectorAlloc (nat ?lx), VectorAlloc (nat ?ly),
               Sgemv TransA M N alpha
                 (map get_float (cells (hmem s) A (nat (M * N)))) N
                 (map get_float (cells (hmem s) x (nat ?lx))) 1
                 beta
                 (map get_float (cells (hmem s) y (nat ?ly))) 1]\<rparr>"
    by (intro caffe_cpu_gemv_half_runs) simp_all
  from h have native: "caffe_cpu_gemv_float cblas_sgemv TransA M N alpha A x beta y
      (as_float get_float (hmem s)) = Some (overwrite (as_float get_float (hmem s)) y ?r)"
    by (simp add: caffe_cpu_gemv_float_def allocated_as_float cells_as_float Let_def)
  have "cells (overwrite (hmem s) y (map get_half ?r)) y (nat ?ly) = map get_half ?r"
    by (rule cells_overwrite_same) simp
  moreover have "cells (overwrite (as_float get_float (hmem s)) y ?r) y (nat ?ly) = ?r"
    by (rule cells_overwrite_same) simp
  ultimately show "gemv_paths_agree cblas_sgemv get_float get_half TransA M N alpha A x beta y s"
    using half native by (simp add: gemv_paths_agree_def)
qed

theorem reduced_precision_paths_agree_for_positive_dimensions_witness:
  "gemm_paths_agree sgemm_textbook (\<lambda>h. h) (\<lambda>f. f) CblasNoTrans CblasNoTrans 2 2 2 1 0 4 2 8
     \<lparr>hmem = overwrite (\<lambda>_. None) 0 [1, 0, 0, 1, 1, 2, 3, 4, 10, 20, 30, 40], trace = []\<rparr> \<and>
   gemv_paths_agree sgemv_textbook (\<lambda>h. h) (\<lambda>f. f) CblasNoTrans 2 2 1 0 4 2 8
     \<lparr>hmem = overwrite (\<lambda>_. None) 0 [1, 0, 0, 1, 1, 2, 3, 4, 10, 20, 30, 40], trace = []\<rparr>"
proof -
  let ?s = "\<lparr>hmem = overwrite (\<lambda>_. None) 0 [1, 0, 0, 1, 1, 2, 3, 4, 10, 20, 30, 40 :: int],
             trace = ([] :: int event list)\<rparr>"
  have pos: "(0 :: int) < 2" by simp
  have fits: "(2 :: int) * 2 \<le> INT_MAX" by (simp add: INT_MAX_def)
  have bufs: "allocated (hmem ?s) 0 (nat (2 * 2))" "allocated (hmem ?s) 4 (nat (2 * 2))"
    "allocated (hmem ?s) 8 (nat (2 * 2))"
    "allocated (hmem ?s) 4 (nat (if CblasNoTrans = CblasNoTrans then 2 else 2))"
    "allocated (hmem ?s) 8 (nat (if CblasNoTrans = CblasNoTrans then 2 else 2))"
    by (simp_all add: allocated_overwrite)
  show ?thesis
    using reduced_precision_paths_agree_for_positive_dimensions [where M = 2 and N = 2 and K = 2 and s = ?s and A = 0 and B = 4 and C = 8
        and x = 4 and y = 8 and TransA = CblasNoTrans and TransB = CblasNoTrans
        and cblas_sgemm = sgemm_textbook and cblas_sgemv = sgemv_textbook
        and get_float = "\<lambda>h. h" and get_half = "\<lambda>f. f" and alpha = 1 and beta = 2]
      pos fits bufs
    by simp
qed

text \<open>
  Claim C2, as stated, covers every input. With \<open>K = 0\<close> the reduced-precision path returns
  at once and leaves \<open>C\<close> alone, while the native path still calls the backend, which
  computes \<open>alpha * 0 + beta * C\<close>. For \<open>M = N = 1\<close>, \<open>K = 0\<close>, \<open>beta = 0\<close> and \<open>C = [5]\<close>
  (with \<open>TransA = CblasTrans\<close>, so that the leading dimensions \<open>lda = M\<close> and \<open>ldb = N\<close> are
  legal), the native result is \<open>[0]\<close> and the reduced-precision result is \<open>[5]\<close>; both values
  are exact in every format.
\<close>

theorem gemm_paths_disagree_when_K_is_zero:
  "\<not> gemm_paths_agree sgemm_textbook (\<lambda>h. h) (\<lambda>f. f) CblasTrans CblasNoTrans 1 1 0 1 0 1 0 2
       \<lparr>hmem = overwrite (\<lambda>_. None) 0 [1, 1, 5], trace = []\<rparr> \<and>
   caffe_cpu_gemm_half sgemm_textbook (\<lambda>h. h) (\<lambda>f. f) CblasTrans CblasNoTrans 1 1 0 1 0 1 0 2
       \<lparr>hmem = overwrite (\<lambda>_. None) 0 [1, 1, 5], trace = []\<rparr> =
     Some \<lparr>hmem = overwrite (\<lambda>_. None) 0 [1, 1, 5], trace = []\<rparr> \<and>
   caffe_cpu_gemm_float sgemm_textbook CblasTrans CblasNoTrans 1 1 0 1 0 1 0 2
       (as_float (\<lambda>h. h) (overwrite (\<lambda>_. None) 0 [1, 1, 5])) =
     Some (overwrite (as_float (\<lambda>h. h) (overwrite (\<lambda>_. None) 0 [1, 1, 5])) 2 [0])"
proof -
  let ?m = "overwrite (\<lambda>_. None) 0 [1, 1, 5 :: int]"
  let ?s = "\<lparr>hmem = ?m, trace = ([] :: int event list)\<rparr>"
  have half: "caffe_cpu_gemm_half sgemm_textbook (\<lambda>h. h) (\<lambda>f. f) CblasTrans CblasNoTrans 1 1 0 1 0 1 0 2 ?s
      = Some ?s"
    by (simp add: caffe_cpu_gemm_half_def)
  have c: "cells (as_float (\<lambda>h. h) ?m) 2 (Suc 0) = [5]"
    by (simp add: cells_def as_float_def overwrite_def)
  have al: "allocated (as_float (\<lambda>h. h) ?m) 2 (Suc 0)"
    by (simp add: allocated_def as_float_def overwrite_def)
  have native: "caffe_cpu_gemm_float sgemm_textbook CblasTrans CblasNoTrans 1 1 0 1 0 1 0 2
      (as_float (\<lambda>h. h) ?m) = Some (overwrite (as_float (\<lambda>h. h) ?m) 2 [0])"
    by (simp add: caffe_cpu_gemm_float_def allocated_nothing c al sgemm_textbook_def)
  have old: "cells ?m 2 (Suc 0) = [5]" by (simp add: cells_def overwrite_def)
  have new: "cells (overwrite (as_float (\<lambda>h. h) ?m) 2 [0 :: int]) 2 (Suc 0) = [0]"
    by (simp add: cells_def overwrite_def)
  have "\<not> gemm_paths_agree sgemm_textbook (\<lambda>h. h) (\<lambda>f. f) CblasTrans CblasNoTrans 1 1 0 1 0 1 0 2 ?s"
    by (simp add: gemm_paths_agree_def half native old new)
  with half native show ?thesis by simp
qed

section \<open>Degenerate dimensions\<close>

text \<open>
  Claim C5. When a dimension is not positive (\<open>M \<le> 0\<close>, \<open>N \<le> 0\<close> or \<open>K \<le> 0\<close> for gemm,
  \<open>M \<le> 0\<close> or \<open>N \<le> 0\<close> for gemv), the reduced-precision call returns normally and leaves
  the whole machine as it found it: the memory (so \<open>C\<close>, respectively \<open>y\<close>) is unchanged and
  the trace gains no event, that is, no temporary is allocated and the backend is not called.
\<close>

theorem degenerate_dimensions_are_noops:
  "(M \<le> 0 \<or> N \<le> 0 \<or> K \<le> 0 \<longrightarrow>
      caffe_cpu_gemm_half cblas_sgemm get_float get_half TransA TransB M N K alpha A B beta C s = Some s)
   \<and> (Mv \<le> 0 \<or> Nv \<le> 0 \<longrightarrow>
      caffe_cpu_gemv_half cblas_sgemv get_float get_half TransAv Mv Nv alpha A x beta y s = Some s)"
  by (simp add: caffe_cpu_gemm_half_def caffe_cpu_gemv_half_def)

theorem degenerate_dimensions_are_noops_witness:
  "((0::int) \<le> 0 \<or> (2::int) \<le> 0 \<or> (2::int) \<le> 0) \<and>
   caffe_cpu_gemm_half sgemm_textbook (\<lambda>h. h) (\<lambda>f. f) CblasNoTrans CblasTrans 0 2 2 1 0 4 3 8
     \<lparr>hmem = overwrite (\<lambda>_. None) 0 [1, 2, 3, 4, 5, 6, 7, 8, 9, 10, 11, 12], trace = []\<rparr> =
     Some \<lparr>hmem = overwrite (\<lambda>_. None) 0 [1, 2, 3, 4, 5, 6, 7, 8, 9, 10, 11, 12], trace = []\<rparr> \<and>
   ((2::int) \<le> 0 \<or> (- 1::int) \<le> 0) \<and>
   caffe_cpu_gemv_half sgemv_textbook (\<lambda>h. h) (\<lambda>f. f) CblasNoTrans 2 (- 1) 1 0 6 3 10
     \<lparr>hmem = overwrite (\<lambda>_. None) 0 [1, 2, 3, 4, 5, 6, 7, 8, 9, 10, 11, 12], trace = []\<rparr> =
     Some \<lparr>hmem = overwrite (\<lambda>_. None) 0 [1, 2, 3, 4, 5, 6, 7, 8, 9, 10, 11, 12], trace = []\<rparr>"
  using degenerate_dimensions_are_noops [where M = 0 and N = 2 and K = 2 and Mv = 2 and Nv = "- 1"
      and cblas_sgemm = sgemm_textbook and cblas_sgemv = sgemv_textbook
      and get_float = "\<lambda>h. h" and get_half = "\<lambda>f. f"
      and TransA = CblasNoTrans and TransB = CblasTrans and TransAv = CblasNoTrans
      and alpha = 1 and A = 0 and B = 4 and beta = 3 and C = 8 and x = 6 and y = 10
      and s = "\<lparr>hmem = overwrite (\<lambda>_. None) 0 [1, 2, 3, 4, 5, 6, 7, 8, 9, 10, 11, 12], trace = []\<rparr>"]
  by simp

section \<open>Filling with zero\<close>

lemma allocated_update: "allocated m p n \<Longrightarrow> allocated (m(q := Some v)) p n"
  by (simp add: allocated_def)

lemma allocated_cell: "allocated m p n \<Longrightarrow> 0 \<le> i \<Longrightarrow> i < int n \<Longrightarrow> m (p + i) \<noteq> None"
proof -
  assume a: "allocated m p n" and i: "0 \<le> i" "i < int n"
  then have "nat i < n" by simp
  with a have "m (p + int (nat i)) \<noteq> None" unfolding allocated_def by blast
  with i show ?thesis by simp
qed

lemma caffe_set_loop_fills:
  "0 \<le> i \<Longrightarrow> allocated m Y (nat N) \<Longrightarrow>
   caffe_set_loop get N alpha Y i m =
     Some (\<lambda>q. if Y + i \<le> q \<and> q < Y + N then Some (get alpha) else m q)"
proof (induction get N alpha Y i m rule: caffe_set_loop.induct)
  case (1 get N alpha Y i m)
  show ?case
  proof (cases "i < N")
    case False
    then have "caffe_set_loop get N alpha Y i m = Some m"
      by (simp add: caffe_set_loop.simps [of get N alpha Y i m])
    moreover have "(\<lambda>q. if Y + i \<le> q \<and> q < Y + N then Some (get alpha) else m q) = m"
      using False by (auto simp: fun_eq_iff)
    ultimately show ?thesis by simp
  next
    case True
    from "1.prems" True have "m (Y + i) \<noteq> None"
      by (intro allocated_cell [of m Y "nat N"]) simp_all
    then obtain old where old: "m (Y + i) = Some old" by blast
    have alloc': "allocated (m(Y + i := Some (get alpha))) Y (nat N)"
      using "1.prems"(2) by (rule allocated_update)
    have nonneg: "0 \<le> i + 1" using "1.prems"(1) by simp
    have "caffe_set_loop get N alpha Y (i + 1) (m(Y + i := Some (get alpha))) =
        Some (\<lambda>q. if Y + (i + 1) \<le> q \<and> q < Y + N then Some (get alpha)
                  else (m(Y + i := Some (get alpha))) q)"
      by (rule "1.IH" [OF True old nonneg alloc'])
    moreover have "(\<lambda>q. if Y + (i + 1) \<le> q \<and> q < Y + N then Some (get alpha)
                  else (m(Y + i := Some (get alpha))) q) =
        (\<lambda>q. if Y + i \<le> q \<and> q < Y + N then Some (get alpha) else m q)"
      using True by (auto simp: fun_eq_iff)
    ultimately show ?thesis
      using True old by (simp add: caffe_set_loop.simps [of get N alpha Y i m])
  qed
qed

lemma overwrite_replicate:
  "0 \<le> N \<Longrightarrow> overwrite m Y (replicate (nat N) v) = (\<lambda>q. if Y + 0 \<le> q \<and> q < Y + N then Some v else m q)"
  by (auto simp: overwrite_def fun_eq_iff)

lemma caffe_set_zero_fills:
  "is_zero alpha \<Longrightarrow> 0 \<le> N \<Longrightarrow> allocated m Y (nat N) \<Longrightarrow>
   caffe_set is_zero get N alpha Y m = Some (overwrite m Y (replicate (nat N) 0))"
  by (simp add: caffe_set_def memset_zero_def)

lemma caffe_set_per_element_fills:
  "0 \<le> N \<Longrightarrow> allocated m Y (nat N) \<Longrightarrow>
   caffe_set_per_element get N alpha Y m = Some (overwrite m Y (replicate (nat N) (get alpha)))"
  unfolding caffe_set_per_element_def
  using caffe_set_loop_fills [of 0 m Y N get alpha]
  by (simp add: overwrite_replicate)

lemma overwrite_replicate_eq:
  "(overwrite m Y (replicate n v) = overwrite m Y (replicate n w)) = (n = 0 \<or> v = w)"
proof (cases "n = 0")
  case True
  then show ?thesis by simp
next
  case False
  then have pos: "0 < n" by simp
  have "v = w" if eq: "overwrite m Y (replicate n v) = overwrite m Y (replicate n w)"
  proof -
    have "overwrite m Y (replicate n v) (Y + int 0) = Some (replicate n v ! 0)"
      by (rule overwrite_inside) (simp add: pos)
    moreover have "overwrite m Y (replicate n w) (Y + int 0) = Some (replicate n w ! 0)"
      by (rule overwrite_inside) (simp add: pos)
    ultimately have "Some (replicate n v ! 0) = Some (replicate n w ! 0)"
      using eq by simp
    then show "v = w" using pos by simp
  qed
  then show ?thesis using False by auto
qed

text \<open>
  Claim C7, as amended. For every storage type and every \<open>N \<ge> 0\<close>, when \<^verbatim>\<open>alpha == 0\<close>
  holds, \<^verbatim>\<open>caffe_set\<close> takes the bulk zero-fill and leaves the all-zero object in the \<open>N\<close>
  elements of \<open>Y\<close>, every other cell unchanged, where the general per-element store would
  leave \<^verbatim>\<open>Get<Dtype>(alpha)\<close> in them. The two results are the same exactly when \<open>N = 0\<close> or
  \<^verbatim>\<open>Get<Dtype>(alpha)\<close> is the all-zero object. That is so for the integer zero and for the
  positive zero of \<^verbatim>\<open>float\<close>, \<^verbatim>\<open>double\<close> and the reduced-precision type; it is not so for a
  negative zero, which also satisfies \<^verbatim>\<open>alpha == 0\<close>.
\<close>

theorem caffe_set_zero_matches_per_element:
  assumes "is_zero alpha" and "0 \<le> N" and "allocated m Y (nat N)"
  shows "caffe_set is_zero get N alpha Y m = memset_zero m Y N \<and>
         caffe_set is_zero get N alpha Y m = Some (overwrite m Y (replicate (nat N) 0)) \<and>
         caffe_set_per_element get N alpha Y m =
           Some (overwrite m Y (replicate (nat N) (get alpha))) \<and>
         ((caffe_set is_zero get N alpha Y m = caffe_set_per_element get N alpha Y m) =
            (N = 0 \<or> get alpha = 0))"
proof -
  have a: "caffe_set is_zero get N alpha Y m = memset_zero m Y N"
    using assms(1) by (simp add: caffe_set_def)
  have b: "caffe_set is_zero get N alpha Y m = Some (overwrite m Y (replicate (nat N) 0))"
    using assms by (rule caffe_set_zero_fills)
  have c: "caffe_set_per_element get N alpha Y m =
      Some (overwrite m Y (replicate (nat N) (get alpha)))"
    using assms(2,3) by (rule caffe_set_per_element_fills)
  have "(caffe_set is_zero get N alpha Y m = caffe_set_per_element get N alpha Y m) =
      (nat N = 0 \<or> 0 = get alpha)"
    unfolding b c by (simp only: option.inject overwrite_replicate_eq)
  then have d: "(caffe_set is_zero get N alpha Y m = caffe_set_per_element get N alpha Y m) =
      (N = 0 \<or> get alpha = 0)"
    using assms(2) by auto
  from a b c d show ?thesis by blast
qed

theorem caffe_set_zero_matches_per_element_witness:
  "caffe_set (\<lambda>a. a = 0) (\<lambda>a. a) 5 (0 :: 32 word) 0 (overwrite (\<lambda>_. None) 0 [7, 7, 7, 7, 7, 7]) =
     memset_zero (overwrite (\<lambda>_. None) 0 [7, 7, 7, 7, 7, 7]) 0 5 \<and>
   caffe_set (\<lambda>a. a = 0) (\<lambda>a. a) 5 (0 :: 32 word) 0 (overwrite (\<lambda>_. None) 0 [7, 7, 7, 7, 7, 7]) =
     caffe_set_per_element (\<lambda>a. a) 5 0 0 (overwrite (\<lambda>_. None) 0 [7, 7, 7, 7, 7, 7]) \<and>
   caffe_set (\<lambda>a. a = 0) (\<lambda>a. a) 5 (0 :: 32 word) 0 (overwrite (\<lambda>_. None) 0 [7, 7, 7, 7, 7, 7]) =
     Some (overwrite (overwrite (\<lambda>_. None) 0 [7, 7, 7, 7, 7, 7]) 0 [0, 0, 0, 0, 0]) \<and>
   caffe_set float_eq_zero (\<lambda>f. ucast (drop_bit 16 f) :: 16 word) 5 0 0
       (overwrite (\<lambda>_. None) 0 [7, 7, 7, 7, 7, 7]) =
     caffe_set_per_element (\<lambda>f :: 32 word. ucast (drop_bit 16 f)) 5 0 0
       (overwrite (\<lambda>_. None) 0 [7, 7, 7, 7, 7, 7]) \<and>
   caffe_set float_eq_zero (\<lambda>f. ucast (drop_bit 16 f) :: 16 word) 5 0 0
       (overwrite (\<lambda>_. None) 0 [7, 7, 7, 7, 7, 7]) =
     Some (overwrite (overwrite (\<lambda>_. None) 0 [7, 7, 7, 7, 7, 7]) 0 [0, 0, 0, 0, 0])"
proof -
  let ?m = "overwrite (\<lambda>_. None) 0 [7, 7, 7, 7, 7, 7 :: 32 word]"
  let ?mh = "overwrite (\<lambda>_. None) 0 [7, 7, 7, 7, 7, 7 :: 16 word]"
  let ?gh = "\<lambda>f :: 32 word. ucast (drop_bit 16 f) :: 16 word"
  have z: "(\<lambda>a :: 32 word. a = 0) 0" by simp
  have zf: "float_eq_zero 0"
    by (simp add: float_eq_zero_def ieee_is_zero_def ieee_exponent_def ieee_fraction_def)
  have g: "(5 :: int) = 0 \<or> (\<lambda>a :: 32 word. a) 0 = (0 :: 32 word)" by simp
  have gh: "(5 :: int) = 0 \<or> ?gh 0 = 0" by simp
  have n: "(0 :: int) \<le> 5" by simp
  have al: "allocated ?m 0 (nat 5)" by (simp add: allocated_overwrite)
  have alh: "allocated ?mh 0 (nat 5)" by (simp add: allocated_overwrite)
  have five: "replicate (nat 5) (0 :: 32 word) = [0, 0, 0, 0, 0]" by (simp add: numeral_eq_Suc)
  have fiveh: "replicate (nat 5) (0 :: 16 word) = [0, 0, 0, 0, 0]" by (simp add: numeral_eq_Suc)
  note T = caffe_set_zero_matches_per_element [where is_zero = "\<lambda>a :: 32 word. a = 0"
        and get = "\<lambda>a :: 32 word. a", OF z n al]
  note Th = caffe_set_zero_matches_per_element [where is_zero = float_eq_zero
        and get = ?gh, OF zf n alh]
  from T have "caffe_set (\<lambda>a. a = 0) (\<lambda>a. a) 5 (0 :: 32 word) 0 ?m =
      Some (overwrite ?m 0 (replicate (nat 5) 0))" by blast
  then have r: "caffe_set (\<lambda>a. a = 0) (\<lambda>a. a) 5 (0 :: 32 word) 0 ?m =
      Some (overwrite ?m 0 [0, 0, 0, 0, 0])" by (simp only: five)
  from Th have "caffe_set float_eq_zero ?gh 5 0 0 ?mh =
      Some (overwrite ?mh 0 (replicate (nat 5) 0))" by blast
  then have rh: "caffe_set float_eq_zero ?gh 5 0 0 ?mh =
      Some (overwrite ?mh 0 [0, 0, 0, 0, 0])" by (simp only: fiveh)
  from T g r Th gh rh show ?thesis by blast
qed

text \<open>
  Claim C7, as stated, covers every \<open>alpha\<close> with \<^verbatim>\<open>alpha == 0\<close>. The negative zero \<open>-0.0f\<close>
  (\<open>0x80000000\<close>) is one: \<^verbatim>\<open>caffe_set<float,float>(5, -0.0f, Y)\<close> takes the bulk zero-fill and
  leaves five times \<open>0x00000000\<close>, the positive zero, while the per-element store writes
  \<^verbatim>\<open>Get<float>(-0.0f)\<close>, five times \<open>0x80000000\<close>. The two compare equal as numbers and differ
  in the sign bit.
\<close>

theorem caffe_set_negative_zero_differs_from_per_element:
  "float_eq_zero 0x80000000 \<and>
   caffe_set float_eq_zero (\<lambda>f. f) 5 0x80000000 0 (overwrite (\<lambda>_. None) 0 [7, 7, 7, 7, 7, 7]) =
     Some (overwrite (overwrite (\<lambda>_. None) 0 [7, 7, 7, 7, 7, 7]) 0 [0, 0, 0, 0, 0]) \<and>
   caffe_set_per_element (\<lambda>f. f) 5 (0x80000000 :: 32 word) 0
       (overwrite (\<lambda>_. None) 0 [7, 7, 7, 7, 7, 7]) =
     Some (overwrite (overwrite (\<lambda>_. None) 0 [7, 7, 7, 7, 7, 7]) 0
             [0x80000000, 0x80000000, 0x80000000, 0x80000000, 0x80000000]) \<and>
   caffe_set float_eq_zero (\<lambda>f. f) 5 0x80000000 0 (overwrite (\<lambda>_. None) 0 [7, 7, 7, 7, 7, 7]) \<noteq>
     caffe_set_per_element (\<lambda>f. f) 5 (0x80000000 :: 32 word) 0
       (overwrite (\<lambda>_. None) 0 [7, 7, 7, 7, 7, 7])"
proof -
  let ?m = "overwrite (\<lambda>_. None) 0 [7, 7, 7, 7, 7, 7 :: 32 word]"
  let ?z = "0x80000000 :: 32 word"
  have z: "float_eq_zero ?z"
    by (simp add: float_eq_zero_def ieee_is_zero_def ieee_exponent_def ieee_fraction_def)
  have n: "(0 :: int) \<le> 5" by simp
  have al: "allocated ?m 0 (nat 5)" by (simp add: allocated_overwrite)
  have five: "replicate (nat 5) v = [v, v, v, v, v]" for v :: "32 word"
    by (simp add: numeral_eq_Suc)
  have bulk: "caffe_set float_eq_zero (\<lambda>f. f) 5 ?z 0 ?m = Some (overwrite ?m 0 [0, 0, 0, 0, 0])"
    using caffe_set_zero_fills [where is_zero = float_eq_zero and alpha = ?z and get = "\<lambda>f. f", OF z n al]
    by (simp only: five)
  have each: "caffe_set_per_element (\<lambda>f. f) 5 ?z 0 ?m = Some (overwrite ?m 0 [?z, ?z, ?z, ?z, ?z])"
    using caffe_set_per_element_fills [OF n al, of "\<lambda>f. f" ?z] by (simp only: five)
  have "overwrite ?m 0 [0, 0, 0, 0, 0] 0 \<noteq> overwrite ?m 0 [?z, ?z, ?z, ?z, ?z] 0"
    by (simp add: overwrite_def)
  then have "overwrite ?m 0 [0, 0, 0, 0, 0] \<noteq> overwrite ?m 0 [?z, ?z, ?z, ?z, ?z]"
    by metis
  with z bulk each show ?thesis by simp
qed

section \<open>Self-copy\<close>

text \<open>
  Claim C9. \<^verbatim>\<open>caffe_copy(N, X, X)\<close> returns with the machine as it was, for every element
  type, every \<open>N\<close>, every mode and every build: the memory is unchanged, no host or device
  copy is issued, and the execution mode is not consulted.
\<close>

theorem caffe_copy_self_is_noop:
  "caffe_copy cpu_only cudaMemcpy N X X s = Returns s"
  by (simp add: caffe_copy_def)

theorem caffe_copy_self_is_noop_witness:
  "caffe_copy True (\<lambda>m Y X N. None) 3 2 2
     \<lparr>cmem = overwrite (\<lambda>_. None) 0 [1, 2, 3, 4, 5 :: int], mode = GPU, issued = []\<rparr> =
   Returns \<lparr>cmem = overwrite (\<lambda>_. None) 0 [1, 2, 3, 4, 5 :: int], mode = GPU, issued = []\<rparr>"
  by (rule caffe_copy_self_is_noop)

section \<open>The strided dot product\<close>

lemma strided_dot_loop:
  "0 \<le> i \<Longrightarrow>
   (\<forall>j. i \<le> j \<and> j < n \<longrightarrow>
      INT_MIN \<le> j * incx \<and> j * incx \<le> INT_MAX \<and> INT_MIN \<le> j * incy \<and> j * incy \<le> INT_MAX \<and>
      m (x + j * incx) \<noteq> None \<and> m (y + j * incy) \<noteq> None) \<Longrightarrow>
   caffe_cpu_strided_dot_half_loop fadd fmul get_float m n x incx y incy i acc =
     Some (foldl (\<lambda>s j. fadd s (fmul (get_float (the (m (x + j * incx))))
                                      (get_float (the (m (y + j * incy))))))
             acc [i..n - 1])"
proof (induction fadd fmul get_float m n x incx y incy i acc
    rule: caffe_cpu_strided_dot_half_loop.induct)
  case (1 fadd fmul get_float m n x incx y incy i acc)
  let ?f = "\<lambda>s j. fadd s (fmul (get_float (the (m (x + j * incx))))
                                (get_float (the (m (y + j * incy)))))"
  show ?case
  proof (cases "i < n")
    case False
    then have "[i..n - 1] = []" by simp
    then show ?thesis using False
      by (simp add: caffe_cpu_strided_dot_half_loop.simps [of fadd fmul get_float m n x incx y incy i acc])
  next
    case True
    with "1.prems"(2) have ok: "INT_MIN \<le> i * incx" "i * incx \<le> INT_MAX"
        "INT_MIN \<le> i * incy" "i * incy \<le> INT_MAX"
        "m (x + i * incx) \<noteq> None" "m (y + i * incy) \<noteq> None"
      by simp_all
    have mx: "int_mul i incx = Some (i * incx)" using ok by (simp add: int_mul_def)
    have my: "int_mul i incy = Some (i * incy)" using ok by (simp add: int_mul_def)
    from ok obtain xv yv where xv: "m (x + i * incx) = Some xv" and yv: "m (y + i * incy) = Some yv"
      by blast
    have nonneg: "0 \<le> i + 1" using "1.prems"(1) by simp
    have rest: "\<forall>j. i + 1 \<le> j \<and> j < n \<longrightarrow>
      INT_MIN \<le> j * incx \<and> j * incx \<le> INT_MAX \<and> INT_MIN \<le> j * incy \<and> j * incy \<le> INT_MAX \<and>
      m (x + j * incx) \<noteq> None \<and> m (y + j * incy) \<noteq> None"
      using "1.prems"(2) by simp
    have step: "caffe_cpu_strided_dot_half_loop fadd fmul get_float m n x incx y incy (i + 1)
          (fadd acc (fmul (get_float xv) (get_float yv))) =
        Some (foldl ?f (fadd acc (fmul (get_float xv) (get_float yv))) [i + 1..n - 1])"
      by (rule "1.IH" [OF True mx my xv yv nonneg rest])
    have unroll: "[i..n - 1] = i # [i + 1..n - 1]"
      using True by (simp add: upto_rec1)
    have "caffe_cpu_strided_dot_half_loop fadd fmul get_float m n x incx y incy i acc =
        caffe_cpu_strided_dot_half_loop fadd fmul get_float m n x incx y incy (i + 1)
          (fadd acc (fmul (get_float xv) (get_float yv)))"
      using True
      by (simp add: caffe_cpu_strided_dot_half_loop.simps [of fadd fmul get_float m n x incx y incy i acc]
          mx my xv yv)
    also note step
    also have "foldl ?f (fadd acc (fmul (get_float xv) (get_float yv))) [i + 1..n - 1] =
        foldl ?f acc [i..n - 1]"
      by (simp add: unroll xv yv)
    finally show ?thesis .
  qed
qed

text \<open>
  Claim C6. For every \<open>n\<close> and all strides \<open>incx\<close>, \<open>incy\<close> (indices that fit an \<^verbatim>\<open>int\<close>
  and address allocated cells), \<^verbatim>\<open>caffe_cpu_strided_dot<half,float>\<close> returns the sum, taken
  in the order \<open>i = 0, \<dots>, n - 1\<close> from the initial value zero, of the products of the
  conversions of \<open>x[i*incx]\<close> and \<open>y[i*incy]\<close>; additions and multiplications are those of the
  compute type and no intermediate value passes through the storage type.
\<close>

theorem caffe_cpu_strided_dot_half_is_ordered_sum:
  assumes "\<forall>i. 0 \<le> i \<and> i < n \<longrightarrow>
      INT_MIN \<le> i * incx \<and> i * incx \<le> INT_MAX \<and> INT_MIN \<le> i * incy \<and> i * incy \<le> INT_MAX \<and>
      m (x + i * incx) \<noteq> None \<and> m (y + i * incy) \<noteq> None"
  shows "caffe_cpu_strided_dot_half fadd fmul fzero get_float m n x incx y incy =
     Some (foldl (\<lambda>s i. fadd s (fmul (get_float (the (m (x + i * incx))))
                                      (get_float (the (m (y + i * incy))))))
             fzero [0..n - 1])"
  unfolding caffe_cpu_strided_dot_half_def
  using assms by (intro strided_dot_loop) simp_all

theorem caffe_cpu_strided_dot_half_is_ordered_sum_witness:
  "caffe_cpu_strided_dot_half (+) (*) 0 (\<lambda>h. h) (overwrite (\<lambda>_. None) 0 [1, 2, 3, 4, 5, 6 :: int])
     3 4 (- 2) 1 2 = Some 28"
proof -
  let ?m = "overwrite (\<lambda>_. None) 0 [1, 2, 3, 4, 5, 6 :: int]"
  have hyp: "\<forall>i. 0 \<le> i \<and> i < 3 \<longrightarrow>
      INT_MIN \<le> i * (- 2) \<and> i * (- 2) \<le> INT_MAX \<and> INT_MIN \<le> i * 2 \<and> i * 2 \<le> INT_MAX \<and>
      ?m (4 + i * (- 2)) \<noteq> None \<and> ?m (1 + i * 2) \<noteq> None"
    by (simp add: overwrite_def INT_MIN_def INT_MAX_def)
  have upto: "[0..2] = [0, 1, 2 :: int]" by (simp add: upto_rec1)
  show ?thesis
    using caffe_cpu_strided_dot_half_is_ordered_sum [OF hyp, of "(+)" "(*)" 0 "\<lambda>h. h"]
    by (simp add: upto overwrite_def)
qed

section \<open>The precondition on sigma\<close>

lemma ieee_le_zero_not_gt_zero: "ieee_le_zero ew fw b \<Longrightarrow> \<not> ieee_gt_zero ew fw b"
  by (auto simp: ieee_le_zero_def ieee_gt_zero_def)

lemma caffe_rng_gaussian_loop_never_fatal:
  "caffe_rng_gaussian_loop vg get n r i s \<noteq> Fatal c s'"
proof (induction vg get n r i s rule: caffe_rng_gaussian_loop.induct)
  case (1 vg get n r i s)
  show ?case
  proof (cases "i < n")
    case False
    then show ?thesis by (simp add: caffe_rng_gaussian_loop.simps [of vg get n r i s])
  next
    case True
    obtain v g' where vg: "vg (rng s) = (v, g')" by (cases "vg (rng s)")
    show ?thesis
    proof (cases "rmem s (r + i)")
      case None
      then show ?thesis using True vg
        by (simp add: caffe_rng_gaussian_loop.simps [of vg get n r i s])
    next
      case (Some old)
      have "caffe_rng_gaussian_loop vg get n r (i + 1)
          \<lparr>rmem = (rmem s)(r + i := Some (get v)), rng = g'\<rparr> \<noteq> Fatal c s'"
        by (rule "1.IH" [OF True vg [symmetric] Some])
      then show ?thesis using True vg Some
        by (simp add: caffe_rng_gaussian_loop.simps [of vg get n r i s])
    qed
  qed
qed

lemma caffe_rng_gaussian_loop_returns:
  "0 \<le> i \<Longrightarrow> allocated (rmem s) r (nat n) \<Longrightarrow>
   \<exists>s'. caffe_rng_gaussian_loop vg get n r i s = Returns s'"
proof (induction vg get n r i s rule: caffe_rng_gaussian_loop.induct)
  case (1 vg get n r i s)
  show ?case
  proof (cases "i < n")
    case False
    then show ?thesis by (simp add: caffe_rng_gaussian_loop.simps [of vg get n r i s])
  next
    case True
    obtain v g' where vg: "vg (rng s) = (v, g')" by (cases "vg (rng s)")
    from "1.prems" True have "rmem s (r + i) \<noteq> None"
      by (intro allocated_cell [of "rmem s" r "nat n"]) simp_all
    then obtain old where old: "rmem s (r + i) = Some old" by blast
    have nonneg: "0 \<le> i + 1" using "1.prems"(1) by simp
    have alloc': "allocated (rmem \<lparr>rmem = (rmem s)(r + i := Some (get v)), rng = g'\<rparr>) r (nat n)"
      using "1.prems"(2) by (simp add: allocated_update)
    have "\<exists>s'. caffe_rng_gaussian_loop vg get n r (i + 1)
          \<lparr>rmem = (rmem s)(r + i := Some (get v)), rng = g'\<rparr> = Returns s'"
      by (rule "1.IH" [OF True vg [symmetric] old nonneg alloc'])
    then show ?thesis using True vg old
      by (simp add: caffe_rng_gaussian_loop.simps [of vg get n r i s])
  qed
qed

text \<open>
  Claim C8. For \<open>n \<ge> 0\<close> and a non-null \<open>r\<close>, \<^verbatim>\<open>caffe_rng_gaussian\<close> called with
  \<open>sigma \<le> 0\<close> aborts on the check \<^verbatim>\<open>CHECK_GT(sigma, 0)\<close> in the state it was called in:
  nothing has been written to \<open>r\<close> and nothing drawn from the generator, and \<open>sigma\<close> is not
  replaced by another value. With \<open>sigma > 0\<close> this check never fails, and when the \<open>n\<close> cells
  of \<open>r\<close> are allocated the call returns. The compute type is \<^verbatim>\<open>float\<close> or \<^verbatim>\<open>double\<close>.
\<close>

theorem caffe_rng_gaussian_rejects_nonpositive_sigma:
  "(0 \<le> n \<and> r \<noteq> NULL \<and> float_le_zero sigma \<longrightarrow>
      caffe_rng_gaussian float_gt_zero nd get n a sigma r s = Fatal CHECK_GT_sigma_0 s) \<and>
   (0 \<le> n \<and> r \<noteq> NULL \<and> double_le_zero sigma_d \<longrightarrow>
      caffe_rng_gaussian double_gt_zero nd_d get_d n a_d sigma_d r s_d = Fatal CHECK_GT_sigma_0 s_d) \<and>
   (float_gt_zero sigma \<longrightarrow>
      (\<forall>s'. caffe_rng_gaussian float_gt_zero nd get n a sigma r s \<noteq> Fatal CHECK_GT_sigma_0 s')) \<and>
   (double_gt_zero sigma_d \<longrightarrow>
      (\<forall>s'. caffe_rng_gaussian double_gt_zero nd_d get_d n a_d sigma_d r s_d \<noteq> Fatal CHECK_GT_sigma_0 s')) \<and>
   (0 \<le> n \<and> r \<noteq> NULL \<and> float_gt_zero sigma \<and> allocated (rmem s) r (nat n) \<longrightarrow>
      (\<exists>s'. caffe_rng_gaussian float_gt_zero nd get n a sigma r s = Returns s')) \<and>
   (0 \<le> n \<and> r \<noteq> NULL \<and> double_gt_zero sigma_d \<and> allocated (rmem s_d) r (nat n) \<longrightarrow>
      (\<exists>s'. caffe_rng_gaussian double_gt_zero nd_d get_d n a_d sigma_d r s_d = Returns s'))"
proof -
  have fail: "caffe_rng_gaussian gz nd0 get0 n a0 sg r s0 = Fatal CHECK_GT_sigma_0 s0"
    if "0 \<le> n" "r \<noteq> NULL" "\<not> gz sg"
    for gz :: "'x \<Rightarrow> bool" and nd0 :: "'x \<Rightarrow> 'x \<Rightarrow> 'y \<Rightarrow> 'x \<times> 'y" and get0 :: "'x \<Rightarrow> 'z" and a0 sg s0
    using that by (simp add: caffe_rng_gaussian_def)
  have pass: "caffe_rng_gaussian gz nd0 get0 n a0 sg r s0 \<noteq> Fatal CHECK_GT_sigma_0 s'"
    if "gz sg"
    for gz :: "'x \<Rightarrow> bool" and nd0 :: "'x \<Rightarrow> 'x \<Rightarrow> 'y \<Rightarrow> 'x \<times> 'y" and get0 :: "'x \<Rightarrow> 'z" and a0 sg s0 s'
    using that by (simp add: caffe_rng_gaussian_def caffe_rng_gaussian_loop_never_fatal)
  have ret: "\<exists>s'. caffe_rng_gaussian gz nd0 get0 n a0 sg r s0 = Returns s'"
    if "0 \<le> n" "r \<noteq> NULL" "gz sg" "allocated (rmem s0) r (nat n)"
    for gz :: "'x \<Rightarrow> bool" and nd0 :: "'x \<Rightarrow> 'x \<Rightarrow> 'y \<Rightarrow> 'x \<times> 'y" and get0 :: "'x \<Rightarrow> 'z" and a0 sg s0
    using that by (simp add: caffe_rng_gaussian_def caffe_rng_gaussian_loop_returns)
  have f: "float_le_zero sigma \<Longrightarrow> \<not> float_gt_zero sigma"
    by (simp add: float_le_zero_def float_gt_zero_def ieee_le_zero_not_gt_zero)
  have d: "double_le_zero sigma_d \<Longrightarrow> \<not> double_gt_zero sigma_d"
    by (simp add: double_le_zero_def double_gt_zero_def ieee_le_zero_not_gt_zero)
  show ?thesis
    using f d fail [of float_gt_zero sigma nd get a s] fail [of double_gt_zero sigma_d nd_d get_d a_d s_d]
      pass [of float_gt_zero sigma nd get a s] pass [of double_gt_zero sigma_d nd_d get_d a_d s_d]
      ret [of float_gt_zero sigma s nd get a] ret [of double_gt_zero sigma_d s_d nd_d get_d a_d]
    by blast
qed

theorem caffe_rng_gaussian_rejects_nonpositive_sigma_witness:
  "caffe_rng_gaussian float_gt_zero (\<lambda>a sigma g. (a, Suc g)) (\<lambda>v. v) 2 0x3F800000 0xBF800000 1
     \<lparr>rmem = overwrite (\<lambda>_. None) 1 [0, 0], rng = 0\<rparr> =
     Fatal CHECK_GT_sigma_0 \<lparr>rmem = overwrite (\<lambda>_. None) 1 [0, 0], rng = 0\<rparr> \<and>
   caffe_rng_gaussian double_gt_zero (\<lambda>a sigma g. (a, Suc g)) (\<lambda>v. v) 2 0x3FF0000000000000 0 1
     \<lparr>rmem = overwrite (\<lambda>_. None) 1 [0, 0], rng = 0\<rparr> =
     Fatal CHECK_GT_sigma_0 \<lparr>rmem = overwrite (\<lambda>_. None) 1 [0, 0], rng = 0\<rparr> \<and>
   (\<exists>s'. caffe_rng_gaussian float_gt_zero (\<lambda>a sigma g. (a, Suc g)) (\<lambda>v. v) 2 0x3F800000 0x3F000000 1
     \<lparr>rmem = overwrite (\<lambda>_. None) 1 [0, 0], rng = 0\<rparr> = Returns s') \<and>
   (\<exists>s'. caffe_rng_gaussian double_gt_zero (\<lambda>a sigma g. (a, Suc g)) (\<lambda>v. v) 2 0x3FF0000000000000
     0x3FE0000000000000 1 \<lparr>rmem = overwrite (\<lambda>_. None) 1 [0, 0], rng = 0\<rparr> = Returns s')"
proof -
  let ?nd = "\<lambda>(a :: 32 word) (sigma :: 32 word) (g :: nat). (a, Suc g)"
  let ?ndd = "\<lambda>(a :: 64 word) (sigma :: 64 word) (g :: nat). (a, Suc g)"
  let ?s = "\<lparr>rmem = overwrite (\<lambda>_. None) 1 [0, 0 :: 32 word], rng = 0 :: nat\<rparr>"
  let ?sd = "\<lparr>rmem = overwrite (\<lambda>_. None) 1 [0, 0 :: 64 word], rng = 0 :: nat\<rparr>"
  have n: "(0 :: int) \<le> 2" by simp
  have r: "(1 :: int) \<noteq> NULL" by (simp add: NULL_def)
  have neg: "float_le_zero 0xBF800000" "double_le_zero 0"
    by (simp_all add: float_le_zero_def double_le_zero_def ieee_le_zero_def ieee_is_nan_def
        ieee_is_zero_def ieee_sign_def ieee_exponent_def ieee_fraction_def)
  have pos: "float_gt_zero 0x3F000000" "double_gt_zero 0x3FE0000000000000"
    by (simp_all add: float_gt_zero_def double_gt_zero_def ieee_gt_zero_def ieee_is_nan_def
        ieee_is_zero_def ieee_sign_def ieee_exponent_def ieee_fraction_def)
  have al: "allocated (rmem ?s) 1 (nat 2)" "allocated (rmem ?sd) 1 (nat 2)"
    by (simp_all add: allocated_overwrite)
  note T1 = caffe_rng_gaussian_rejects_nonpositive_sigma [where n = 2 and r = 1 and sigma = "0xBF800000" and sigma_d = 0
      and nd = ?nd and nd_d = ?ndd and get = "\<lambda>v. v" and get_d = "\<lambda>v. v"
      and a = "0x3F800000" and a_d = "0x3FF0000000000000" and s = ?s and s_d = ?sd]
  note T2 = caffe_rng_gaussian_rejects_nonpositive_sigma [where n = 2 and r = 1 and sigma = "0x3F000000"
      and sigma_d = "0x3FE0000000000000"
      and nd = ?nd and nd_d = ?ndd and get = "\<lambda>v. v" and get_d = "\<lambda>v. v"
      and a = "0x3F800000" and a_d = "0x3FF0000000000000" and s = ?s and s_d = ?sd]
  show ?thesis using T1 T2 n r neg pos al by blast
qed

section \<open>The inclusive upper bound of uniform sampling\<close>












section \<open>The Hamming distance counts cast values\<close>

lemma popcount_nonneg: "0 \<le> popcount w"
  by (simp add: popcount_def)

lemma sum_list_popcount_nonneg: "0 \<le> sum_list (map (\<lambda>i. popcount (f i)) xs)"
  by (induction xs) (simp_all add: popcount_nonneg)

lemma hamming_loop_sum:
  "0 \<le> dist \<Longrightarrow>
   list_all (\<lambda>j. case m (x + j) of None \<Rightarrow> False | Some v \<Rightarrow> cast v \<noteq> None) [i..n - 1] \<Longrightarrow>
   list_all (\<lambda>j. case m (y + j) of None \<Rightarrow> False | Some v \<Rightarrow> cast v \<noteq> None) [i..n - 1] \<Longrightarrow>
   dist + sum_list (map (\<lambda>j. popcount (the (cast (the (m (x + j)))) XOR the (cast (the (m (y + j))))))
            [i..n - 1]) \<le> INT_MAX \<Longrightarrow>
   caffe_cpu_hamming_distance_loop cast m n x y i dist =
     Some (dist + sum_list (map (\<lambda>j. popcount (the (cast (the (m (x + j)))) XOR
                                              the (cast (the (m (y + j)))))) [i..n - 1]))"
proof (induction cast m n x y i dist rule: caffe_cpu_hamming_distance_loop.induct)
  case (1 cast m n x y i dist)
  let ?t = "\<lambda>j. popcount (the (cast (the (m (x + j)))) XOR the (cast (the (m (y + j)))))"
  show ?case
  proof (cases "i < n")
    case False
    then have "[i..n - 1] = []" by simp
    then show ?thesis using False
      by (simp add: caffe_cpu_hamming_distance_loop.simps [of cast m n x y i dist])
  next
    case True
    then have unroll: "[i..n - 1] = i # [i + 1..n - 1]" by (simp add: upto_rec1)
    from "1.prems"(2) obtain xi u where xi: "m (x + i) = Some xi" and u: "cast xi = Some u"
      unfolding unroll by (auto split: option.splits)
    from "1.prems"(3) obtain yi v where yi: "m (y + i) = Some yi" and v: "cast yi = Some v"
      unfolding unroll by (auto split: option.splits)
    have restx: "list_all (\<lambda>j. case m (x + j) of None \<Rightarrow> False | Some v \<Rightarrow> cast v \<noteq> None) [i + 1..n - 1]"
      using "1.prems"(2) unfolding unroll by simp
    have resty: "list_all (\<lambda>j. case m (y + j) of None \<Rightarrow> False | Some v \<Rightarrow> cast v \<noteq> None) [i + 1..n - 1]"
      using "1.prems"(3) unfolding unroll by simp
    have here: "?t i = popcount (u XOR v)" by (simp add: xi u yi v)
    have split: "sum_list (map ?t [i..n - 1]) = popcount (u XOR v) + sum_list (map ?t [i + 1..n - 1])"
      unfolding unroll by (simp add: here)
    have tail_nonneg: "0 \<le> sum_list (map ?t [i + 1..n - 1])"
      by (rule sum_list_popcount_nonneg)
    have p_nonneg: "0 \<le> popcount (u XOR v)" by (rule popcount_nonneg)
    have bound: "dist + popcount (u XOR v) + sum_list (map ?t [i + 1..n - 1]) \<le> INT_MAX"
      using "1.prems"(4) by (simp add: split)
    have add: "int_add dist (popcount (u XOR v)) = Some (dist + popcount (u XOR v))"
      using "1.prems"(1) p_nonneg tail_nonneg bound by (simp add: int_add_def INT_MIN_def)
    have nonneg': "0 \<le> dist + popcount (u XOR v)" using "1.prems"(1) p_nonneg by simp
    have "caffe_cpu_hamming_distance_loop cast m n x y i dist =
        caffe_cpu_hamming_distance_loop cast m n x y (i + 1) (dist + popcount (u XOR v))"
      using True by (simp add: caffe_cpu_hamming_distance_loop.simps [of cast m n x y i dist] xi yi u v add)
    also have "\<dots> = Some (dist + popcount (u XOR v) + sum_list (map ?t [i + 1..n - 1]))"
      by (rule "1.IH" [OF True xi yi u v add nonneg' restx resty bound])
    also have "dist + popcount (u XOR v) + sum_list (map ?t [i + 1..n - 1]) =
        dist + sum_list (map ?t [i..n - 1])"
      by (simp add: split)
    finally show ?thesis .
  qed
qed

lemma hamming_distance_from_start:
  "castable cast m n x \<Longrightarrow> castable cast m n y \<Longrightarrow>
   hamming_distance_of_casts cast m n x y \<le> INT_MAX \<Longrightarrow>
   caffe_cpu_hamming_distance_loop cast m n x y 0 0 = Some (hamming_distance_of_casts cast m n x y)"
  using hamming_loop_sum [where dist = 0 and i = 0 and cast = cast and m = m and n = n and x = x and y = y]
  by (simp add: castable_def hamming_distance_of_casts_def)

lemmas ieee_cast_defs = float_to_uint32_def float_to_uint16_def double_to_uint64_def
  ieee_to_unsigned_def ieee_trunc_def ieee_exponent_def ieee_fraction_def ieee_sign_def

text \<open>
  Claim C3, as amended. On buffers of \<open>n\<close> allocated elements whose casts are all defined,
  and when the total fits an \<^verbatim>\<open>int\<close>, \<^verbatim>\<open>caffe_cpu_hamming_distance(n, x, y)\<close> returns the sum
  over \<open>i < n\<close> of the population count of the exclusive or of \<open>x[i]\<close> and \<open>y[i]\<close>, each
  converted by value (\<^verbatim>\<open>static_cast\<close>, truncation toward zero) to an unsigned integer: of 32
  bits for single precision, of 64 bits for double precision, of 16 bits for the
  reduced-precision type after its conversion to the compute type.
\<close>

theorem caffe_cpu_hamming_distance_counts_cast_values:
  "(castable float_to_uint32 mf n x \<and> castable float_to_uint32 mf n y \<and>
    hamming_distance_of_casts float_to_uint32 mf n x y \<le> INT_MAX \<longrightarrow>
      caffe_cpu_hamming_distance_float mf n x y =
        Some (hamming_distance_of_casts float_to_uint32 mf n x y)) \<and>
   (castable double_to_uint64 md n x \<and> castable double_to_uint64 md n y \<and>
    hamming_distance_of_casts double_to_uint64 md n x y \<le> INT_MAX \<longrightarrow>
      caffe_cpu_hamming_distance_double md n x y =
        Some (hamming_distance_of_casts double_to_uint64 md n x y)) \<and>
   (castable (\<lambda>h. float_to_uint16 (get_float h)) mh n x \<and>
    castable (\<lambda>h. float_to_uint16 (get_float h)) mh n y \<and>
    hamming_distance_of_casts (\<lambda>h. float_to_uint16 (get_float h)) mh n x y \<le> INT_MAX \<longrightarrow>
      caffe_cpu_hamming_distance_half get_float mh n x y =
        Some (hamming_distance_of_casts (\<lambda>h. float_to_uint16 (get_float h)) mh n x y))"
  unfolding caffe_cpu_hamming_distance_float_def caffe_cpu_hamming_distance_double_def
    caffe_cpu_hamming_distance_half_def
  by (intro conjI impI hamming_distance_from_start) simp_all

theorem caffe_cpu_hamming_distance_counts_cast_values_witness:
  "caffe_cpu_hamming_distance_float
     (overwrite (\<lambda>_. None) 0 [0x3F800000, 0x3F000000, 0x40000000, 0]) 2 0 2 = Some 2 \<and>
   caffe_cpu_hamming_distance_double
     (overwrite (\<lambda>_. None) 0 [0x3FF0000000000000, 0x3FE0000000000000, 0x4000000000000000, 0]) 2 0 2 =
     Some 2 \<and>
   caffe_cpu_hamming_distance_half (\<lambda>h :: 16 word. push_bit 16 (ucast h))
     (overwrite (\<lambda>_. None) 0 [0x3F80, 0x3F00, 0x4000, 0]) 2 0 2 = Some 2"
proof -
  let ?mf = "overwrite (\<lambda>_. None) 0 [0x3F800000, 0x3F000000, 0x40000000, 0 :: 32 word]"
  let ?md = "overwrite (\<lambda>_. None) 0
    [0x3FF0000000000000, 0x3FE0000000000000, 0x4000000000000000, 0 :: 64 word]"
  let ?mh = "overwrite (\<lambda>_. None) 0 [0x3F80, 0x3F00, 0x4000, 0 :: 16 word]"
  let ?g = "\<lambda>h :: 16 word. push_bit 16 (ucast h) :: 32 word"
  have c32: "float_to_uint32 0x3F800000 = Some 1" "float_to_uint32 0x3F000000 = Some 0"
    "float_to_uint32 0x40000000 = Some 2" "float_to_uint32 0 = Some 0"
    by (simp_all add: ieee_cast_defs)
  have c64: "double_to_uint64 0x3FF0000000000000 = Some 1" "double_to_uint64 0x3FE0000000000000 = Some 0"
    "double_to_uint64 0x4000000000000000 = Some 2" "double_to_uint64 0 = Some 0"
    by (simp_all add: ieee_cast_defs)
  have g: "?g 0x3F80 = 0x3F800000" "?g 0x3F00 = 0x3F000000" "?g 0x4000 = 0x40000000" "?g 0 = 0"
    by simp_all
  have c16: "float_to_uint16 0x3F800000 = Some 1" "float_to_uint16 0x3F000000 = Some 0"
    "float_to_uint16 0x40000000 = Some 2" "float_to_uint16 0 = Some 0"
    by (simp_all add: ieee_cast_defs)
  have p: "popcount (3 :: 32 word) = 2" "popcount (0 :: 32 word) = 0"
    "popcount (3 :: 64 word) = 2" "popcount (0 :: 64 word) = 0"
    "popcount (3 :: 16 word) = 2" "popcount (0 :: 16 word) = 0"
    by code_simp+
  have x: "(1 :: 32 word) XOR 2 = 3" "(1 :: 64 word) XOR 2 = 3" "(1 :: 16 word) XOR 2 = 3"
    by simp_all
  have upto: "[0..1] = [0, 1 :: int]" by (simp add: upto_rec1)
  have mf: "?mf 0 = Some 0x3F800000" "?mf 1 = Some 0x3F000000" "?mf 2 = Some 0x40000000" "?mf 3 = Some 0"
    by (simp_all add: overwrite_def)
  have md: "?md 0 = Some 0x3FF0000000000000" "?md 1 = Some 0x3FE0000000000000"
    "?md 2 = Some 0x4000000000000000" "?md 3 = Some 0"
    by (simp_all add: overwrite_def)
  have mh: "?mh 0 = Some 0x3F80" "?mh 1 = Some 0x3F00" "?mh 2 = Some 0x4000" "?mh 3 = Some 0"
    by (simp_all add: overwrite_def)
  have okf: "castable float_to_uint32 ?mf 2 0" "castable float_to_uint32 ?mf 2 2"
    by (simp_all add: castable_def upto mf c32)
  have okd: "castable double_to_uint64 ?md 2 0" "castable double_to_uint64 ?md 2 2"
    by (simp_all add: castable_def upto md c64)
  have okh: "castable (\<lambda>h. float_to_uint16 (?g h)) ?mh 2 0"
    "castable (\<lambda>h. float_to_uint16 (?g h)) ?mh 2 2"
    by (simp_all add: castable_def upto mh g c16)
  have tf: "hamming_distance_of_casts float_to_uint32 ?mf 2 0 2 = 2"
    by (simp add: hamming_distance_of_casts_def upto mf c32 x p)
  have td: "hamming_distance_of_casts double_to_uint64 ?md 2 0 2 = 2"
    by (simp add: hamming_distance_of_casts_def upto md c64 x p)
  have th: "hamming_distance_of_casts (\<lambda>h. float_to_uint16 (?g h)) ?mh 2 0 2 = 2"
    by (simp add: hamming_distance_of_casts_def upto mh g c16 x p)
  have small: "(2 :: int) \<le> INT_MAX" by (simp add: INT_MAX_def)
  show ?thesis
    using caffe_cpu_hamming_distance_counts_cast_values [of ?mf 2 0 2 ?md ?g ?mh] okf okd okh small
    by (simp only: tf td th simp_thms)
qed

text \<open>
  Claim C3, as stated, reads the elements of the native types as reinterpreted bit patterns.
  The code does not: for \<open>x = [1.0f, 0.5f]\<close> and \<open>y = [2.0f, 0.0f]\<close> it returns 2 (the casts are
  1, 0 and 2, 0), while the bit patterns differ in 14 positions.
\<close>

theorem caffe_cpu_hamming_distance_is_not_of_bit_patterns:
  "caffe_cpu_hamming_distance_float
     (overwrite (\<lambda>_. None) 0 [0x3F800000, 0x3F000000, 0x40000000, 0]) 2 0 2 = Some 2 \<and>
   hamming_distance_of_bit_patterns
     (overwrite (\<lambda>_. None) 0 [0x3F800000, 0x3F000000, 0x40000000, 0 :: 32 word]) 2 0 2 = 14"
proof -
  let ?m = "overwrite (\<lambda>_. None) 0 [0x3F800000, 0x3F000000, 0x40000000, 0 :: 32 word]"
  have c: "float_to_uint32 0x3F800000 = Some 1" "float_to_uint32 0x3F000000 = Some 0"
    "float_to_uint32 0x40000000 = Some 2" "float_to_uint32 0 = Some 0"
    by (simp_all add: ieee_cast_defs)
  have p: "popcount (3 :: 32 word) = 2" "popcount (0 :: 32 word) = 0"
    "popcount (0x7F800000 :: 32 word) = 8" "popcount (0x3F000000 :: 32 word) = 6"
    by code_simp+
  have x: "(1 :: 32 word) XOR 2 = 3" "(0x3F800000 :: 32 word) XOR 0x40000000 = 0x7F800000"
    by simp_all
  have upto: "[0..1] = [0, 1 :: int]" by (simp add: upto_rec1)
  have mem: "?m 0 = Some 0x3F800000" "?m 1 = Some 0x3F000000" "?m 2 = Some 0x40000000" "?m 3 = Some 0"
    by (simp_all add: overwrite_def)
  have code: "caffe_cpu_hamming_distance_float ?m 2 0 2 = Some 2"
    unfolding caffe_cpu_hamming_distance_float_def
    by (simp add: caffe_cpu_hamming_distance_loop.simps mem c p x int_add_def INT_MIN_def INT_MAX_def)
  have spec: "hamming_distance_of_bit_patterns ?m 2 0 2 = 14"
    unfolding hamming_distance_of_bit_patterns_def
    by (simp add: upto mem p x)
  from code spec show ?thesis by simp
qed

end
